theory Spec2Isabelle
  imports Complex_Main "HOL-Library.AList"
begin

section \<open>Masked loss family (autoencoder/autoencoder\_definitions.py)\<close>

text \<open>
  A tensor is modelled by the list of its entries in row-major order: every loss below
  reduces over all axes at once, so the shape beyond the number of entries plays no role.
  The losses are modelled twice. In the first model, of exact arithmetic, the entries are
  finite numbers, modelled as reals, and every operation is exact (rounding and overflow
  are not modelled). The scalar a reduction or a division returns is a \<open>tfloat\<close>: a
  finite number, one of the two infinities, or not-a-number, with the IEEE rules for the
  operations the losses use (zero is unsigned). The second model, further below, computes
  with binary32 numbers as the source does (\<open>tf.float32\<close>).
\<close>

datatype tfloat = Fin real | PInf | NInf | NaN

type_synonym tensor = "real list"

fun tf_divide :: "tfloat \<Rightarrow> tfloat \<Rightarrow> tfloat" where
  "tf_divide (Fin a) (Fin b) =
     (if b = 0 then (if a = 0 then NaN else if 0 < a then PInf else NInf)
      else Fin (a / b))"
| "tf_divide (Fin a) PInf = Fin 0"
| "tf_divide (Fin a) NInf = Fin 0"
| "tf_divide PInf (Fin b) = (if 0 \<le> b then PInf else NInf)"
| "tf_divide NInf (Fin b) = (if 0 \<le> b then NInf else PInf)"
| "tf_divide _ _ = NaN"

fun tf_multiply :: "tfloat \<Rightarrow> tfloat \<Rightarrow> tfloat" where
  "tf_multiply (Fin a) (Fin b) = Fin (a * b)"
| "tf_multiply (Fin a) PInf = (if a = 0 then NaN else if 0 < a then PInf else NInf)"
| "tf_multiply (Fin a) NInf = (if a = 0 then NaN else if 0 < a then NInf else PInf)"
| "tf_multiply PInf (Fin b) = (if b = 0 then NaN else if 0 < b then PInf else NInf)"
| "tf_multiply NInf (Fin b) = (if b = 0 then NaN else if 0 < b then NInf else PInf)"
| "tf_multiply PInf PInf = PInf"
| "tf_multiply PInf NInf = NInf"
| "tf_multiply NInf PInf = NInf"
| "tf_multiply NInf NInf = PInf"
| "tf_multiply _ _ = NaN"

fun tf_add :: "tfloat \<Rightarrow> tfloat \<Rightarrow> tfloat" where
  "tf_add (Fin a) (Fin b) = Fin (a + b)"
| "tf_add (Fin a) PInf = PInf"
| "tf_add (Fin a) NInf = NInf"
| "tf_add PInf (Fin b) = PInf"
| "tf_add NInf (Fin b) = NInf"
| "tf_add PInf PInf = PInf"
| "tf_add NInf NInf = NInf"
| "tf_add _ _ = NaN"

fun tf_negative :: "tfloat \<Rightarrow> tfloat" where
  "tf_negative (Fin a) = Fin (- a)"
| "tf_negative PInf = NInf"
| "tf_negative NInf = PInf"
| "tf_negative NaN = NaN"

definition tf_subtract :: "tfloat \<Rightarrow> tfloat \<Rightarrow> tfloat" where
  "tf_subtract a b = tf_add a (tf_negative b)"

text \<open>Elementwise operations on two tensors of one shape, and the two reductions.\<close>

definition tensor_sub :: "tensor \<Rightarrow> tensor \<Rightarrow> tensor" where
  "tensor_sub a b = map (\<lambda>(x, y). x - y) (zip a b)"

definition tensor_mul :: "tensor \<Rightarrow> tensor \<Rightarrow> tensor" where
  "tensor_mul a b = map (\<lambda>(x, y). x * y) (zip a b)"

definition tf_square :: "tensor \<Rightarrow> tensor" where
  "tf_square a = map (\<lambda>x. x * x) a"

definition tf_abs :: "tensor \<Rightarrow> tensor" where
  "tf_abs a = map (\<lambda>x. \<bar>x\<bar>) a"

definition tf_not_equal_0 :: "tensor \<Rightarrow> tensor" where
  \<comment> \<open>\<open>tf.cast(tf.not_equal(target, 0), tf.float32)\<close>\<close>
  "tf_not_equal_0 a = map (\<lambda>x. if x \<noteq> 0 then 1 else 0) a"

definition tf_equal_0 :: "tensor \<Rightarrow> tensor" where
  \<comment> \<open>\<open>tf.cast(tf.equal(target, 0), tf.float32)\<close>\<close>
  "tf_equal_0 a = map (\<lambda>x. if x = 0 then 1 else 0) a"

definition reduce_sum :: "tensor \<Rightarrow> real" where
  "reduce_sum a = sum_list a"

definition reduce_mean :: "tensor \<Rightarrow> tfloat" where
  \<comment> \<open>the sum over the number of entries; an empty tensor gives 0/0\<close>
  "reduce_mean a = tf_divide (Fin (reduce_sum a)) (Fin (real (length a)))"

definition nonzero_mse :: "tensor \<Rightarrow> tensor \<Rightarrow> tfloat" where
  "nonzero_mse target reconstruction =
     (let mask = tf_not_equal_0 target;
          masked_difference = tensor_mul (tensor_sub target reconstruction) mask
      in reduce_mean (tf_square masked_difference))"

definition zero_mse :: "tensor \<Rightarrow> tensor \<Rightarrow> tfloat" where
  "zero_mse target reconstruction =
     (let mask = tf_equal_0 target;
          masked_difference = tensor_mul (tensor_sub target reconstruction) mask
      in reduce_mean (tf_square masked_difference))"

definition composite_mse :: "tensor \<Rightarrow> tensor \<Rightarrow> real \<Rightarrow> tfloat" where
  "composite_mse target reconstruction ratio =
     (let frac = tf_divide (Fin ratio) (Fin (1 + ratio))
      in tf_add (tf_multiply frac (nonzero_mse target reconstruction))
                (tf_multiply (tf_subtract (Fin 1) frac) (zero_mse target reconstruction)))"

definition mae :: "tensor \<Rightarrow> tensor \<Rightarrow> tfloat" where
  "mae target reconstruction = reduce_mean (tf_abs (tensor_sub target reconstruction))"



text \<open>
  The reading of the specification the source is compared with: the weight
  \<open>w = ratio / (1 + ratio)\<close> and the combination \<open>w * nonzero_mse + (1 - w) * zero_mse\<close>.
\<close>

definition spec_weight :: "real \<Rightarrow> tfloat" where
  "spec_weight ratio = tf_divide (Fin ratio) (tf_add (Fin 1) (Fin ratio))"

definition composite_mse_spec :: "tensor \<Rightarrow> tensor \<Rightarrow> real \<Rightarrow> tfloat" where
  "composite_mse_spec t r ratio =
     tf_add (tf_multiply (spec_weight ratio) (nonzero_mse t r))
            (tf_multiply (tf_subtract (Fin 1) (spec_weight ratio)) (zero_mse t r))"

text \<open>Sums the theorems below refer to: one term per entry of the target.\<close>

definition masked_sq_sum :: "(real \<Rightarrow> bool) \<Rightarrow> tensor \<Rightarrow> tensor \<Rightarrow> real" where
  "masked_sq_sum sel t r =
     (\<Sum>i < length t. if sel (t ! i) then (t ! i - r ! i)\<^sup>2 else 0)"

definition masked_abs_sum :: "(real \<Rightarrow> bool) \<Rightarrow> tensor \<Rightarrow> tensor \<Rightarrow> real" where
  "masked_abs_sum sel t r =
     (\<Sum>i < length t. if sel (t ! i) then \<bar>t ! i - r ! i\<bar> else 0)"



subsection \<open>The losses in binary32 arithmetic\<close>

text \<open>
  \<open>round32\<close> rounds a real to the nearest binary32 number, ties to the even
  significand: \<open>binade\<close> finds the exponent \<open>e\<close> with \<open>2 powi e \<le> \<bar>x\<bar> < 2 powi (e + 1)\<close>,
  not below \<open>-126\<close> (the subnormal numbers) and not above \<open>127\<close>; the result is a
  multiple of \<open>2 powi (e - 23)\<close>, and a result of magnitude \<open>2 powi 128\<close> or more is an
  infinity. An operation on binary32 numbers is the exact operation followed by the
  rounding. Zero is unsigned.
\<close>

fun binade :: "nat \<Rightarrow> int \<Rightarrow> real \<Rightarrow> int" where
  "binade 0 e x = e"
| "binade (Suc n) e x = (if \<bar>x\<bar> < 2 powi (e + 1) then e else binade n (e + 1) x)"

definition round_half_even :: "real \<Rightarrow> int" where
  "round_half_even y =
     (let f = \<lfloor>y\<rfloor>; d = y - of_int f
      in if d < 1 / 2 then f else if 1 / 2 < d then f + 1 else if even f then f else f + 1)"

definition round32 :: "real \<Rightarrow> tfloat" where
  "round32 x =
     (let e = binade 253 (- 126) x;
          q = 2 powi (e - 23);
          y = of_int (round_half_even (x / q)) * q
      in if 2 powi 128 \<le> y then PInf else if y \<le> - (2 powi 128) then NInf else Fin y)"




















section \<open>Errors\<close>

text \<open>
  Every exception the modelled functions raise themselves, and the ones Python raises for
  them (a missing key or index, a malformed integer, a division by zero), is a value.
  \<open>RuntimeError\<close> carries the arguments it is raised with.
\<close>

datatype error =
    RuntimeError "string list"
  | NotImplementedError
  | ValueError
  | IndexError
  | KeyError
  | ZeroDivisionError

section \<open>Reading the types file (autoencoder/calculate\_encodings.py, get\_paths)\<close>

text \<open>
  Text is ASCII. \<open>is_space\<close> is the ASCII part of what \<open>str.split()\<close> and
  \<open>str.strip()\<close> treat as whitespace; \<open>py_int\<close> is \<open>int()\<close> on a string without
  surrounding whitespace: an optional sign, then decimal digits, single underscores
  allowed between digits.
\<close>

definition is_space :: "char \<Rightarrow> bool" where
  "is_space c = (c \<in> set [CHR '' '', CHR 0x09, CHR 0x0A, CHR 0x0B, CHR 0x0C, CHR 0x0D,
                           CHR 0x1C, CHR 0x1D, CHR 0x1E, CHR 0x1F])"

definition py_strip :: "string \<Rightarrow> string" where
  "py_strip s = rev (dropWhile is_space (rev (dropWhile is_space s)))"

fun split_from :: "string \<Rightarrow> string \<Rightarrow> string list" where
  "split_from word [] = (if word = [] then [] else [word])"
| "split_from word (c # cs) =
     (if is_space c then (if word = [] then split_from [] cs else word # split_from [] cs)
      else split_from (word @ [c]) cs)"

definition py_split :: "string \<Rightarrow> string list" where
  "py_split s = split_from [] s"

definition is_digit :: "char \<Rightarrow> bool" where
  "is_digit c = (c \<in> set ''0123456789'')"

definition digit_val :: "char \<Rightarrow> int" where
  "digit_val c = int (length (takeWhile (\<lambda>d. d \<noteq> c) ''0123456789''))"

fun py_digits :: "bool \<Rightarrow> int \<Rightarrow> string \<Rightarrow> int option" where
  "py_digits after_digit acc [] = (if after_digit then Some acc else None)"
| "py_digits after_digit acc (c # cs) =
     (if is_digit c then py_digits True (10 * acc + digit_val c) cs
      else if c = CHR ''_'' \<and> after_digit then py_digits False acc cs
      else None)"

definition py_int :: "string \<Rightarrow> error + int" where
  "py_int s =
     (case s of
        [] \<Rightarrow> Inl ValueError
      | c # cs \<Rightarrow>
          if c = CHR ''-'' then
            (case py_digits False 0 cs of None \<Rightarrow> Inl ValueError | Some n \<Rightarrow> Inr (- n))
          else if c = CHR ''+'' then
            (case py_digits False 0 cs of None \<Rightarrow> Inl ValueError | Some n \<Rightarrow> Inr n)
          else
            (case py_digits False 0 s of None \<Rightarrow> Inl ValueError | Some n \<Rightarrow> Inr n))"

definition chunk :: "string list \<Rightarrow> nat \<Rightarrow> error + string" where
  \<comment> \<open>\<open>chunks[i]\<close> for a non-negative index\<close>
  "chunk chunks i = (if i < length chunks then Inr (chunks ! i) else Inl IndexError)"

text \<open>A Sample Record is the tuple \<open>(label, rec, lig)\<close>; \<open>paths\<close> is the dictionary
  from the position in the file to the record, kept in insertion order.\<close>

type_synonym sample = "int \<times> string \<times> string"

type_synonym paths = "(nat \<times> sample) list"

definition parse_line :: "string \<Rightarrow> error + sample" where
  \<comment> \<open>lines 55 to 58: \<open>chunks\<close>, \<open>label\<close>, \<open>rec\<close>, \<open>lig\<close>\<close>
  "parse_line line =
     (let chunks = py_split (py_strip line) in
      case chunk chunks 0 of Inl e \<Rightarrow> Inl e | Inr c0 \<Rightarrow>
      (case py_int c0 of Inl e \<Rightarrow> Inl e | Inr label \<Rightarrow>
      (case chunk chunks 1 of Inl e \<Rightarrow> Inl e | Inr rec \<Rightarrow>
      (case chunk chunks 2 of Inl e \<Rightarrow> Inl e | Inr lig \<Rightarrow>
      Inr (label, rec, lig)))))"

text \<open>
  The loop of \<open>get_paths\<close> over \<open>enumerate(f.readlines())\<close>. Its state is the three
  local variables: \<open>current_rec\<close> (\<open>None\<close> before the first line), the set \<open>recs\<close>,
  and \<open>paths\<close>. The source never adds to \<open>recs\<close> and assigns \<open>current_rec\<close> at index 0
  only, and so does the model.
\<close>

fun get_paths_loop ::
  "nat \<Rightarrow> string list \<Rightarrow> string option \<times> string set \<times> paths \<Rightarrow> error + paths" where
  "get_paths_loop idx [] (current_rec, recs, paths) = Inr paths"
| "get_paths_loop idx (line # rest) (current_rec, recs, paths) =
     (case parse_line line of
        Inl e \<Rightarrow> Inl e
      | Inr (label, rec, lig) \<Rightarrow>
          if idx = 0 then
            get_paths_loop (Suc idx) rest
              (Some rec, recs, AList.update idx (label, rec, lig) paths)
          else if Some rec \<noteq> current_rec \<and> rec \<in> recs then
            Inl (RuntimeError [''Types file must be grouped by receptor''])
          else
            get_paths_loop (Suc idx) rest
              (current_rec, recs, AList.update idx (label, rec, lig) paths))"

definition get_paths :: "string list \<Rightarrow> error + paths" where
  \<comment> \<open>the argument is what \<open>f.readlines()\<close> returns for the types file\<close>
  "get_paths types_file = get_paths_loop 0 types_file (None, {}, [])"


section \<open>The encode pipeline (autoencoder/calculate\_encodings.py)\<close>

subsection \<open>The output files\<close>

text \<open>
  A file path is the list of its components. \<open>path_name\<close> and \<open>path_stem\<close> are
  \<open>Path(rec).name\<close> and \<open>Path(rec).stem\<close> of pathlib on a POSIX path string: the name is
  the last component that is neither empty nor \<open>.\<close>, and the stem drops the last suffix
  of the name when the last dot is neither its first nor its last character.
\<close>

type_synonym fpath = "string list"

fun split_at_slash :: "string \<Rightarrow> string \<Rightarrow> string list" where
  "split_at_slash word [] = [word]"
| "split_at_slash word (c # cs) =
     (if c = CHR ''/'' then word # split_at_slash [] cs else split_at_slash (word @ [c]) cs)"

definition path_name :: "string \<Rightarrow> string" where
  "path_name p =
     (let parts = filter (\<lambda>c. c \<noteq> [] \<and> c \<noteq> ''.'') (split_at_slash [] p)
      in if parts = [] then [] else last parts)"

definition rfind_dot :: "string \<Rightarrow> nat option" where
  \<comment> \<open>\<open>name.rfind('.')\<close>, \<open>None\<close> for \<open>-1\<close>\<close>
  "rfind_dot name =
     (let k = length (takeWhile (\<lambda>c. c \<noteq> CHR ''.'') (rev name))
      in if k = length name then None else Some (length name - 1 - k))"

definition path_stem :: "string \<Rightarrow> string" where
  "path_stem p =
     (let name = path_name p in
      case rfind_dot name of
        None \<Rightarrow> name
      | Some i \<Rightarrow> if 0 < i \<and> i < length name - 1 then take i name else name)"

text \<open>
  The message \<open>gnina_embeddings_pb2.protein\<close> with its repeated \<open>ligand\<close> field. A file
  holds the message that was serialised into it: \<open>SerializeToString\<close> belongs to the
  protobuf library and is not modelled further.
\<close>

record ligand_msg =
  lig_path :: string
  embedding :: "real list"
  lig_label :: int

record protein =
  rec_path :: string
  ligand :: "ligand_msg list"

text \<open>
  The part of the file system the pipeline touches: the directories that exist, the
  content of the files, and the list of the writes made, in order. Failures of the
  operating system (permissions, a full disk) are not modelled.
\<close>

record disk =
  dirs :: "fpath set"
  files :: "fpath \<rightharpoonup> protein"
  written :: "(fpath \<times> protein) list"

definition mkdir :: "fpath \<Rightarrow> disk \<Rightarrow> disk" where
  \<comment> \<open>\<open>mkdir(exist_ok=True, parents=True)\<close>\<close>
  "mkdir d dk = dk\<lparr>dirs := dirs dk \<union> set (map (\<lambda>k. take k d) [0..<Suc (length d)])\<rparr>"

type_synonym entry = "int \<times> string \<times> real list"

definition write_encodings_to_disk :: "string \<Rightarrow> entry list \<Rightarrow> fpath \<Rightarrow> disk \<Rightarrow> disk" where
  "write_encodings_to_disk rec encodings encodings_dir dk =
     (let rec_msg = \<lparr>rec_path = rec,
                      ligand = map (\<lambda>(label, lig_path, lig_encoding).
                                     \<lparr>lig_path = lig_path, embedding = lig_encoding,
                                      lig_label = label\<rparr>) encodings\<rparr>;
          fname = path_stem rec @ ''.bin''
      in dk\<lparr>files := (files dk)(encodings_dir @ [fname] \<mapsto> rec_msg),
            written := written dk @ [(encodings_dir @ [fname], rec_msg)]\<rparr>)"

subsection \<open>The collaborators\<close>

text \<open>
  The example provider, the grid maker and the trained encoder are outside the
  repository's sources and are parameters: \<open>next_batch\<close> takes the batch size and the
  provider's state and returns a batch and the new state; \<open>forward\<close> fills the input
  tensor from a batch (with or without random rotation); \<open>predict_on_batch\<close> returns the
  rows of the encodings output. \<open>engine\<close> is their state, with the number of batches
  requested and of inferences run so far.
\<close>

record ('p, 'b, 'g) collaborators =
  next_batch :: "nat \<Rightarrow> 'p \<Rightarrow> 'b \<times> 'p"
  forward :: "'b \<Rightarrow> bool \<Rightarrow> 'g"
  predict_on_batch :: "'g \<Rightarrow> real list list"

record 'p engine =
  provider :: 'p
  batches_requested :: nat
  inferences_run :: nat

definition fetch_and_encode ::
  "('p, 'b, 'g) collaborators \<Rightarrow> nat \<Rightarrow> bool \<Rightarrow> 'p engine \<Rightarrow> real list list \<times> 'p engine" where
  \<comment> \<open>lines 102 to 104, and again 115 to 117\<close>
  "fetch_and_encode c batch_size random_rotation eng =
     (let (batch, p') = next_batch c batch_size (provider eng);
          input_tensor = forward c batch random_rotation;
          encodings_numpy = predict_on_batch c input_tensor
      in (encodings_numpy,
          eng\<lparr>provider := p', batches_requested := Suc (batches_requested eng),
               inferences_run := Suc (inferences_run eng)\<rparr>))"

subsection \<open>Grouping\<close>

text \<open>
  The body of both inner loops (lines 106 to 112 and 120 to 126), over the values of
  \<open>batch_idx\<close>; \<open>base\<close> is \<open>iteration * batch_size\<close>. The state is \<open>current_rec\<close>,
  \<open>encodings\<close> and the disk.
\<close>

type_synonym group_state = "string \<times> entry list \<times> disk"

fun consume ::
  "paths \<Rightarrow> real list list \<Rightarrow> fpath \<Rightarrow> nat \<Rightarrow> nat list \<Rightarrow> group_state \<Rightarrow> error + group_state" where
  "consume paths encodings_numpy encodings_dir base [] st = Inr st"
| "consume paths encodings_numpy encodings_dir base (batch_idx # rest)
       (current_rec, encodings, dk) =
     (let global_idx = base + batch_idx in
      case map_of paths global_idx of
        None \<Rightarrow> Inl KeyError
      | Some (label, rec, lig) \<Rightarrow>
          (let (current_rec', encodings', dk') =
                 (if rec \<noteq> current_rec
                  then (rec, [], write_encodings_to_disk current_rec encodings encodings_dir dk)
                  else (current_rec, encodings, dk))
           in if batch_idx < length encodings_numpy
              then consume paths encodings_numpy encodings_dir base rest
                     (current_rec', encodings' @ [(label, lig, encodings_numpy ! batch_idx)], dk')
              else Inl IndexError))"

fun batches_loop ::
  "('p, 'b, 'g) collaborators \<Rightarrow> paths \<Rightarrow> nat \<Rightarrow> bool \<Rightarrow> fpath \<Rightarrow> nat list \<Rightarrow>
   'p engine \<times> group_state \<Rightarrow> error + 'p engine \<times> group_state" where
  "batches_loop c paths batch_size random_rotation encodings_dir [] st = Inr st"
| "batches_loop c paths batch_size random_rotation encodings_dir (iteration # rest) (eng, gs) =
     (let (encodings_numpy, eng') = fetch_and_encode c batch_size random_rotation eng in
      case consume paths encodings_numpy encodings_dir (iteration * batch_size)
             [0..<batch_size] gs of
        Inl e \<Rightarrow> Inl e
      | Inr gs' \<Rightarrow> batches_loop c paths batch_size random_rotation encodings_dir rest (eng', gs'))"

definition calculate_encodings ::
  "('p, 'b, 'g) collaborators \<Rightarrow> nat \<Rightarrow> string list \<Rightarrow> fpath \<Rightarrow> bool \<Rightarrow>
   'p engine \<times> disk \<Rightarrow> error + 'p engine \<times> disk" where
  \<comment> \<open>\<open>batch_size\<close> is \<open>input_tensor.shape[0]\<close>; \<open>types_file\<close> is the list of the lines of
      the types file; \<open>save_path\<close> is given by its components; the provider in the engine
      has been populated with the types file\<close>
  "calculate_encodings c batch_size types_file save_path random_rotation world =
     (case get_paths types_file of
        Inl e \<Rightarrow> Inl e
      | Inr paths \<Rightarrow>
          (let total_size = length paths in
           if batch_size = 0 then Inl ZeroDivisionError
           else
             (let iterations = total_size div batch_size in
              case map_of paths 0 of
                None \<Rightarrow> Inl KeyError
              | Some (label0, rec0, lig0) \<Rightarrow>
                  (let encodings_dir = save_path @ [''encodings''];
                       dk = mkdir encodings_dir (snd world)
                   in case batches_loop c paths batch_size random_rotation encodings_dir
                             [0..<iterations] (fst world, rec0, [], dk) of
                        Inl e \<Rightarrow> Inl e
                      | Inr (eng, gs) \<Rightarrow>
                          (let remainder = total_size mod batch_size;
                               (encodings_numpy, eng') =
                                  fetch_and_encode c batch_size random_rotation eng
                           in case consume paths encodings_numpy encodings_dir
                                     (iterations * batch_size) [0..<remainder] gs of
                                Inl e \<Rightarrow> Inl e
                              | Inr (current_rec, encodings, dk') \<Rightarrow>
                                  Inr (eng',
                                       if encodings \<noteq> []
                                       then write_encodings_to_disk current_rec encodings
                                              encodings_dir dk'
                                       else dk'))))))"


subsection \<open>What the pipeline is compared with\<close>

text \<open>
  The receptors of the records in file order; a file is grouped by receptor when no
  receptor comes back after another one has been seen; \<open>first_seen\<close> lists the distinct
  receptors in the order of their first appearance.
\<close>

definition receptors :: "paths \<Rightarrow> string list" where
  "receptors paths = map (\<lambda>(idx, label, rec, lig). rec) paths"

definition grouped :: "string list \<Rightarrow> bool" where
  "grouped recs = distinct (remdups_adj recs)"

fun first_seen :: "string list \<Rightarrow> string list" where
  "first_seen [] = []"
| "first_seen (x # xs) = x # first_seen (filter (\<lambda>y. y \<noteq> x) xs)"

text \<open>
  The provider's state after \<open>k\<close> requests, the rows the encoder returns for the \<open>k\<close>-th
  batch requested (counting from 0), and the row that belongs to the record at position
  \<open>i\<close> of the file: row \<open>i mod batch_size\<close> of batch \<open>i div batch_size\<close>.
\<close>

definition provider_after :: "('p, 'b, 'g) collaborators \<Rightarrow> nat \<Rightarrow> nat \<Rightarrow> 'p \<Rightarrow> 'p" where
  "provider_after c batch_size k p = ((\<lambda>q. snd (next_batch c batch_size q)) ^^ k) p"

definition batch_rows ::
  "('p, 'b, 'g) collaborators \<Rightarrow> nat \<Rightarrow> bool \<Rightarrow> 'p \<Rightarrow> nat \<Rightarrow> real list list" where
  "batch_rows c batch_size random_rotation p k =
     predict_on_batch c
       (forward c (fst (next_batch c batch_size (provider_after c batch_size k p)))
          random_rotation)"

definition encoding_of ::
  "('p, 'b, 'g) collaborators \<Rightarrow> nat \<Rightarrow> bool \<Rightarrow> 'p \<Rightarrow> nat \<Rightarrow> real list" where
  "encoding_of c batch_size random_rotation p i =
     batch_rows c batch_size random_rotation p (i div batch_size) ! (i mod batch_size)"

definition ligand_of ::
  "('p, 'b, 'g) collaborators \<Rightarrow> nat \<Rightarrow> bool \<Rightarrow> 'p \<Rightarrow> paths \<Rightarrow> nat \<Rightarrow> ligand_msg" where
  "ligand_of c batch_size random_rotation p paths i =
     (case snd (paths ! i) of (label, rec, lig) \<Rightarrow>
        \<lparr>lig_path = lig, embedding = encoding_of c batch_size random_rotation p i,
         lig_label = label\<rparr>)"

definition group_of ::
  "('p, 'b, 'g) collaborators \<Rightarrow> nat \<Rightarrow> bool \<Rightarrow> 'p \<Rightarrow> paths \<Rightarrow> string \<Rightarrow> protein" where
  "group_of c batch_size random_rotation p paths r =
     \<lparr>rec_path = r,
      ligand = map (ligand_of c batch_size random_rotation p paths)
                 (filter (\<lambda>i. receptors paths ! i = r) [0..<length paths])\<rparr>"

definition group_file :: "fpath \<Rightarrow> string \<Rightarrow> fpath" where
  "group_file save_path r = save_path @ [''encodings'', path_stem r @ ''.bin'']"

definition new_writes :: "disk \<Rightarrow> disk \<Rightarrow> (fpath \<times> protein) list" where
  \<comment> \<open>the writes made between an earlier and a later state of the disk\<close>
  "new_writes dk dk' = drop (length (written dk)) (written dk')"

section \<open>Construction of the autoencoder (AutoEncoderBase.\_\_init\_\_)\<close>

text \<open>
  The three classes, the tensors \<open>_construct_layers\<close> returns (the layers between them
  come from a module outside the sources and are not modelled), the functions of the
  loss module, and what \<open>super().__init__\<close>, \<open>add_loss\<close> and \<open>compile\<close> are given.
  \<open>optimizers_get\<close> is \<open>tf.keras.optimizers.get(name).__class__\<close>, \<open>None\<close> where Keras
  raises for an unknown name.
\<close>

datatype architecture = AutoEncoderBase | DenseAutoEncoder | SingleLayerAutoEncoder

datatype layer = Input_image | Frac | Encoding | Reconstruction

datatype loss_function =
  Fn_mae | Fn_nonzero_mae | Fn_zero_mae | Fn_zero_mse | Fn_nonzero_mse | Fn_composite_mse

record ('o, 'a) keras_model =
  inputs :: "layer list"
  outputs :: "layer list"
  added_losses :: "loss_function list"
  optimizer :: "'o \<times> 'a"
  loss :: "(string \<times> string option) list"
  metrics :: "(string \<times> loss_function list) list"

definition construct_layers :: "architecture \<Rightarrow> error + layer \<times> layer \<times> layer" where
  "construct_layers cls =
     (case cls of
        AutoEncoderBase \<Rightarrow> Inl NotImplementedError
      | DenseAutoEncoder \<Rightarrow> Inr (Input_image, Encoding, Reconstruction)
      | SingleLayerAutoEncoder \<Rightarrow> Inr (Input_image, Encoding, Reconstruction))"

definition AutoEncoderBase_init ::
  "(string \<Rightarrow> 'o option) \<Rightarrow> architecture \<Rightarrow> string + 'o \<Rightarrow> string \<Rightarrow> 'a \<Rightarrow>
   error + ('o, 'a) keras_model" where
  "AutoEncoderBase_init optimizers_get cls optimiser loss_name opt_args =
     (case construct_layers cls of
        Inl e \<Rightarrow> Inl e
      | Inr (input_image, encoding, reconstruction) \<Rightarrow>
          (case (case optimiser of
                   Inl name \<Rightarrow>
                     (case optimizers_get name of None \<Rightarrow> Inl ValueError | Some k \<Rightarrow> Inr k)
                 | Inr k \<Rightarrow> Inr k) of
             Inl e \<Rightarrow> Inl e
           | Inr optimiser_class \<Rightarrow>
               (let model_inputs =
                      [input_image] @ (if loss_name = ''composite_mse'' then [Frac] else []);
                    metric_fns = [(''reconstruction'',
                                   [Fn_mae, Fn_nonzero_mae, Fn_zero_mae, Fn_zero_mse,
                                    Fn_nonzero_mse])]
                in if loss_name = ''composite_mse'' then
                     Inr \<lparr>inputs = model_inputs, outputs = [reconstruction, encoding],
                          added_losses = [Fn_composite_mse],
                          optimizer = (optimiser_class, opt_args),
                          loss = [], metrics = metric_fns\<rparr>
                   else
                     Inr \<lparr>inputs = model_inputs, outputs = [reconstruction, encoding],
                          added_losses = [],
                          optimizer = (optimiser_class, opt_args),
                          loss = [(''reconstruction'', Some loss_name), (''encoding'', None)],
                          metrics = metric_fns\<rparr>)))"

definition metrics_on :: "('o, 'a) keras_model \<Rightarrow> string \<Rightarrow> loss_function list" where
  \<comment> \<open>the metrics attached to one output; none when the dictionary has no such key\<close>
  "metrics_on m output = (case map_of (metrics m) output of None \<Rightarrow> [] | Some fs \<Rightarrow> fs)"

section \<open>One batch through a model (utilities/gnina\_functions.py, process\_batch)\<close>

text \<open>
  The model, the example provider, the grid maker and the optional autoencoder are
  parameters; all tensors are values of one type. The session holds what the calls
  change (the provider's position, the model's weights) and the list of the calls made
  on the collaborators, in order.
\<close>

datatype call =
    Next_batch nat
  | Forward bool
  | Get_layer string
  | Autoencoder_predict
  | Model_predict
  | Extract_label
  | Train_on_batch

record ('p, 'b, 'v, 'm) trainer =
  provider_next_batch :: "nat \<Rightarrow> 'p \<Rightarrow> 'b \<times> 'p"
  gmaker_forward :: "'b \<Rightarrow> bool \<Rightarrow> 'v"
  model_predict_on_batch :: "'m \<Rightarrow> 'v \<Rightarrow> 'v"
  model_train_on_batch :: "'m \<Rightarrow> 'v \<Rightarrow> 'v \<Rightarrow> 'v \<times> 'm"
  extract_label :: "'b \<Rightarrow> 'v"
  constant_ones :: "nat \<Rightarrow> 'v"

record 'v autoencoder =
  has_frac_layer :: bool
  autoencoder_predict_on_batch :: "'v list \<Rightarrow> 'v"

record ('p, 'm) session =
  example_provider :: 'p
  model :: 'm
  calls :: "call list"

datatype 'v outcome = Predictions 'v | Labels_and_predictions 'v 'v | Loss 'v

definition process_batch ::
  "('p, 'b, 'v, 'm) trainer \<Rightarrow> nat \<Rightarrow> 'v option \<Rightarrow> bool \<Rightarrow> 'v autoencoder option \<Rightarrow>
   ('p, 'm) session \<Rightarrow> (error + 'v outcome) \<times> ('p, 'm) session" where
  \<comment> \<open>\<open>batch_size\<close> is \<open>input_tensor.shape[0]\<close>\<close>
  "process_batch t batch_size labels_tensor train autoencoder s =
     (if train \<and> labels_tensor = None then
        (Inl (RuntimeError [''Labels must be provided for backpropagation'',
                            ''if train == True'']), s)
      else
        (let (batch, p') = provider_next_batch t batch_size (example_provider s);
             input_tensor = gmaker_forward t batch train;
             s1 = s\<lparr>example_provider := p',
                    calls := calls s @ [Next_batch batch_size, Forward train]\<rparr>;
             (gnina_input, s2) =
               (case autoencoder of
                  Some ae \<Rightarrow>
                    (autoencoder_predict_on_batch ae
                       ([input_tensor] @
                        (if has_frac_layer ae then [constant_ones t batch_size] else [])),
                     s1\<lparr>calls := calls s1 @ [Get_layer ''frac'', Autoencoder_predict]\<rparr>)
                | None \<Rightarrow> (input_tensor, s1))
         in case labels_tensor of
              None \<Rightarrow>
                (Inr (Predictions (model_predict_on_batch t (model s2) gnina_input)),
                 s2\<lparr>calls := calls s2 @ [Model_predict]\<rparr>)
            | Some buffer \<Rightarrow>
                (let y_true = extract_label t batch;
                     s3 = s2\<lparr>calls := calls s2 @ [Extract_label]\<rparr>
                 in if train then
                      (let (loss_value, m') =
                             model_train_on_batch t (model s3) gnina_input y_true
                       in (Inr (Loss loss_value),
                           s3\<lparr>model := m', calls := calls s3 @ [Train_on_batch]\<rparr>))
                    else
                      (Inr (Labels_and_predictions y_true
                              (model_predict_on_batch t (model s3) gnina_input)),
                       s3\<lparr>calls := calls s3 @ [Model_predict]\<rparr>))))"


section \<open>Notions used in the proofs\<close>

text \<open>
  The dictionary \<open>get_paths\<close> returns has the keys \<open>0, 1, \<dots>\<close> in order (\<open>indexed\<close>).
  \<open>item\<close> is what the inner loops see at one position of the file: the receptor and
  the entry appended for it. \<open>group_step\<close> is one round of the inner loop once the two
  lookups have succeeded, and \<open>final_flush\<close> is the write after the loops (line 128).
\<close>

definition indexed :: "paths \<Rightarrow> bool" where
  "indexed ps = (map fst ps = [0..<length ps])"

definition item :: "paths \<Rightarrow> (nat \<Rightarrow> real list) \<Rightarrow> nat \<Rightarrow> string \<times> entry" where
  "item ps enc i = (case snd (ps ! i) of (label, rec, lig) \<Rightarrow> (rec, (label, lig, enc i)))"

definition group_step :: "fpath \<Rightarrow> group_state \<Rightarrow> string \<times> entry \<Rightarrow> group_state" where
  "group_step dir st x =
     (case st of (cur, encs, dk) \<Rightarrow>
        (case x of (r, e) \<Rightarrow>
           if r \<noteq> cur then (r, [e], write_encodings_to_disk cur encs dir dk)
           else (cur, encs @ [e], dk)))"

definition final_flush :: "fpath \<Rightarrow> group_state \<Rightarrow> disk" where
  "final_flush dir st =
     (case st of (cur, encs, dk) \<Rightarrow>
        if encs \<noteq> [] then write_encodings_to_disk cur encs dir dk else dk)"

text \<open>
  \<open>runs\<close> cuts a sequence of items into its maximal runs of one receptor, starting from
  an open group; the last run is the group left open. \<open>to_write\<close> is the file name and
  the message of a group, \<open>members\<close> the entries of one receptor in a sequence.
\<close>

fun runs :: "string \<Rightarrow> entry list \<Rightarrow> (string \<times> entry) list \<Rightarrow> (string \<times> entry list) list" where
  "runs cur acc [] = [(cur, acc)]"
| "runs cur acc ((r, e) # xs) =
     (if r \<noteq> cur then (cur, acc) # runs r [e] xs else runs cur (acc @ [e]) xs)"

definition to_write :: "fpath \<Rightarrow> string \<times> entry list \<Rightarrow> fpath \<times> protein" where
  "to_write dir g =
     (dir @ [path_stem (fst g) @ ''.bin''],
      \<lparr>rec_path = fst g,
       ligand = map (\<lambda>(label, lig_path, lig_encoding).
                      \<lparr>lig_path = lig_path, embedding = lig_encoding, lig_label = label\<rparr>)
                  (snd g)\<rparr>)"

definition members :: "string \<Rightarrow> (string \<times> entry) list \<Rightarrow> entry list" where
  "members r xs = map snd (filter (\<lambda>x. fst x = r) xs)"

text \<open>
  \<open>store_all\<close> stores a list of writes into the files in order, a later write to a
  path replacing an earlier one; \<open>flushes_into\<close> relates an earlier and a later state of
  the disk when the later one comes from the earlier by writes of groups into one
  directory.
\<close>

definition store_all :: "(fpath \<times> protein) list \<Rightarrow> (fpath \<rightharpoonup> protein) \<Rightarrow> (fpath \<rightharpoonup> protein)" where
  "store_all ws f = foldl (\<lambda>g w. g(fst w \<mapsto> snd w)) f ws"

definition flushes_into :: "fpath \<Rightarrow> disk \<Rightarrow> disk \<Rightarrow> bool" where
  "flushes_into dir dk dk' \<longleftrightarrow>
     dirs dk' = dirs dk
     \<and> (\<exists>ws. written dk' = written dk @ ws
             \<and> (\<forall>w \<in> set ws. fst w = dir @ [path_stem (rec_path (snd w)) @ ''.bin''])
             \<and> files dk' = store_all ws (files dk))"

subsection \<open>Example data\<close>

text \<open>
  Collaborators that can be evaluated: the provider counts the examples it has handed
  out, a batch is the position it starts at and its size, and the encoder returns for
  every example the vector holding its position. Three types files: six records of the
  receptors A, A, A, B, B, C; seven records; and the ungrouped A, B, A.
\<close>

definition example_collaborators :: "(nat, nat \<times> nat, nat \<times> nat) collaborators" where
  "example_collaborators =
     \<lparr>next_batch = (\<lambda>n p. ((p, n), p + n)),
      forward = (\<lambda>b r. b),
      predict_on_batch = (\<lambda>(p, n). map (\<lambda>i. [real i]) [p..<p + n])\<rparr>"

definition example_world :: "nat engine \<times> disk" where
  "example_world =
     (\<lparr>provider = 0, batches_requested = 0, inferences_run = 0\<rparr>,
      \<lparr>dirs = {}, files = Map.empty, written = []\<rparr>)"

definition example_types_file :: "string list" where
  "example_types_file =
     [''1 A l1'', ''0 A l2'', ''1 A l3'', ''1 B l4'', ''0 B l5'', ''1 C l6'']"

definition example_paths :: paths where
  "example_paths =
     [(0, 1, ''A'', ''l1''), (1, 0, ''A'', ''l2''), (2, 1, ''A'', ''l3''),
      (3, 1, ''B'', ''l4''), (4, 0, ''B'', ''l5''), (5, 1, ''C'', ''l6'')]"

definition example_seven :: "string list" where
  "example_seven =
     [''1 A l1'', ''0 A l2'', ''1 A l3'', ''1 B l4'', ''0 B l5'', ''1 C l6'', ''0 C l7'']"

definition example_seven_paths :: paths where
  "example_seven_paths =
     [(0, 1, ''A'', ''l1''), (1, 0, ''A'', ''l2''), (2, 1, ''A'', ''l3''),
      (3, 1, ''B'', ''l4''), (4, 0, ''B'', ''l5''), (5, 1, ''C'', ''l6''),
      (6, 0, ''C'', ''l7'')]"

definition example_ABA :: "string list" where
  "example_ABA = [''1 A l1'', ''0 B l2'', ''1 A l3'']"

definition example_ABA_paths :: paths where
  "example_ABA_paths = [(0, 1, ''A'', ''l1''), (1, 0, ''B'', ''l2''), (2, 1, ''A'', ''l3'')]"

section \<open>Properties of the masked losses\<close>

lemma masked_sq_sum_Nil [simp]: "masked_sq_sum sel [] r = 0"
  by (simp add: masked_sq_sum_def)

lemma masked_sq_sum_Cons [simp]:
  "masked_sq_sum sel (x # t) (y # r) = (if sel x then (x - y)\<^sup>2 else 0) + masked_sq_sum sel t r"
  by (simp add: masked_sq_sum_def sum.lessThan_Suc_shift del: sum.lessThan_Suc cong: if_cong)

lemma masked_abs_sum_Nil [simp]: "masked_abs_sum sel [] r = 0"
  by (simp add: masked_abs_sum_def)

lemma masked_abs_sum_Cons [simp]:
  "masked_abs_sum sel (x # t) (y # r) = (if sel x then \<bar>x - y\<bar> else 0) + masked_abs_sum sel t r"
  by (simp add: masked_abs_sum_def sum.lessThan_Suc_shift del: sum.lessThan_Suc cong: if_cong)


















text \<open>
  C3. For tensors of one shape and every ratio, \<open>composite_mse\<close> is the combination
  \<open>w * nonzero_mse + (1 - w) * zero_mse\<close> with \<open>w = ratio / (1 + ratio)\<close>, exactly: the
  source computes the weight and the combination with the operations the specification
  names, also where the weight is infinite (ratio \<open>-1\<close>) or a loss is not-a-number.
\<close>

theorem composite_mse_is_weighted_sum:
  "composite_mse target reconstruction ratio = composite_mse_spec target reconstruction ratio"
  by (simp add: composite_mse_def composite_mse_spec_def spec_weight_def Let_def)

lemma spec_weight_examples:
  "spec_weight 0 = Fin 0" "spec_weight 1 = Fin (1 / 2)"
  "spec_weight 3 = Fin (3 / 4)" "spec_weight 100 = Fin (100 / 101)"
  by (simp_all add: spec_weight_def)



subsection \<open>Binary32 rounding and the losses in binary32\<close>

lemma binade_eq:
  "e0 \<le> e \<Longrightarrow> nat (e - e0) \<le> n \<Longrightarrow> (e = e0 \<or> 2 powi e \<le> \<bar>x\<bar>) \<Longrightarrow>
   (\<bar>x\<bar> < 2 powi (e + 1) \<or> nat (e - e0) = n) \<Longrightarrow> binade n e0 x = e"
proof (induction n arbitrary: e0)
  case 0
  then show ?case by simp
next
  case (Suc n)
  show ?case
  proof (cases "e = e0")
    case True
    with Suc.prems show ?thesis by auto
  next
    case False
    with Suc.prems have lt: "e0 + 1 \<le> e" and ge: "2 powi e \<le> \<bar>x\<bar>" by auto
    have "(2::real) powi (e0 + 1) \<le> 2 powi e"
      by (rule power_int_increasing [OF lt]) simp
    with ge have nl: "\<not> \<bar>x\<bar> < 2 powi (e0 + 1)" by linarith
    have "binade n (e0 + 1) x = e"
      by (rule Suc.IH) (use Suc.prems lt ge in auto)
    with nl show ?thesis by simp
  qed
qed

lemma round32_at:
  assumes "- 126 \<le> e" "e \<le> 127" "e = - 126 \<or> 2 powi e \<le> \<bar>x\<bar>"
    "\<bar>x\<bar> < 2 powi (e + 1) \<or> e = 127"
  shows "round32 x =
     (let q = 2 powi (e - 23); y = of_int (round_half_even (x / q)) * q
      in if 2 powi 128 \<le> y then PInf else if y \<le> - (2 powi 128) then NInf else Fin y)"
proof -
  have "binade 253 (- 126) x = e"
    by (rule binade_eq) (use assms in auto)
  then show ?thesis by (simp add: round32_def)
qed

lemma round32_0 [simp]: "round32 0 = Fin 0"
  by (simp add: round32_at [of "- 126"] round_half_even_def)

lemma round32_1 [simp]: "round32 1 = Fin 1"
  by (simp add: round32_at [of 0] round_half_even_def)

lemma round32_m1 [simp]: "round32 (- 1) = Fin (- 1)"
  by (simp add: round32_at [of 0] round_half_even_def)

lemma round32_m2 [simp]: "round32 (- 2) = Fin (- 2)"
  by (simp add: round32_at [of 1] round_half_even_def)

lemma round32_3 [simp]: "round32 3 = Fin 3"
  by (simp add: round32_at [of 1] round_half_even_def)

lemma round32_4 [simp]: "round32 4 = Fin 4"
  by (simp add: round32_at [of 2] round_half_even_def)

lemma round32_5 [simp]: "round32 5 = Fin 5"
  by (simp add: round32_at [of 2] round_half_even_def)





















section \<open>Properties of the construction and of process\_batch\<close>

text \<open>
  C5, as the source has it. For every configured loss, a model that is built has the
  five functions \<open>mae\<close>, \<open>nonzero_mae\<close>, \<open>zero_mae\<close>, \<open>zero_mse\<close> and \<open>nonzero_mse\<close> as
  the metrics of its reconstruction output and no metric on the encoding output;
  \<open>composite_mse\<close> is not among the metrics: it is the added loss when the configured
  loss is \<open>composite_mse\<close>, and absent otherwise.
\<close>

theorem init_metrics:
  assumes "AutoEncoderBase_init optimizers_get cls optimiser loss_name opt_args = Inr m"
  shows "metrics_on m ''reconstruction'' =
           [Fn_mae, Fn_nonzero_mae, Fn_zero_mae, Fn_zero_mse, Fn_nonzero_mse]
         \<and> Fn_composite_mse \<notin> set (metrics_on m ''reconstruction'')
         \<and> metrics_on m ''encoding'' = []
         \<and> added_losses m = (if loss_name = ''composite_mse'' then [Fn_composite_mse] else [])"
  using assms
  by (auto simp: AutoEncoderBase_init_def metrics_on_def Let_def
      split: sum.splits prod.splits if_splits)

theorem init_metrics_witness:
  "AutoEncoderBase_init (\<lambda>name. if name = ''sgd'' then Some (0::nat) else None)
     DenseAutoEncoder (Inl ''sgd'') ''composite_mse'' ()
   = Inr \<lparr>inputs = [Input_image, Frac], outputs = [Reconstruction, Encoding],
          added_losses = [Fn_composite_mse], optimizer = (0, ()), loss = [],
          metrics = [(''reconstruction'',
                      [Fn_mae, Fn_nonzero_mae, Fn_zero_mae, Fn_zero_mse, Fn_nonzero_mse])]\<rparr>
   \<and> metrics_on \<lparr>inputs = [Input_image, Frac], outputs = [Reconstruction, Encoding],
          added_losses = [Fn_composite_mse], optimizer = (0::nat, ()), loss = [],
          metrics = [(''reconstruction'',
                      [Fn_mae, Fn_nonzero_mae, Fn_zero_mae, Fn_zero_mse, Fn_nonzero_mse])]\<rparr>
        ''reconstruction''
      = [Fn_mae, Fn_nonzero_mae, Fn_zero_mae, Fn_zero_mse, Fn_nonzero_mse]"
proof -
  have h: "AutoEncoderBase_init (\<lambda>name. if name = ''sgd'' then Some (0::nat) else None)
     DenseAutoEncoder (Inl ''sgd'') ''composite_mse'' ()
   = Inr \<lparr>inputs = [Input_image, Frac], outputs = [Reconstruction, Encoding],
          added_losses = [Fn_composite_mse], optimizer = (0, ()), loss = [],
          metrics = [(''reconstruction'',
                      [Fn_mae, Fn_nonzero_mae, Fn_zero_mae, Fn_zero_mse, Fn_nonzero_mse])]\<rparr>"
    by (simp add: AutoEncoderBase_init_def construct_layers_def)
  from init_metrics [OF h] h show ?thesis by simp
qed

text \<open>
  C5, as the specification states it, fails: with the standard loss \<open>mse\<close> the dense
  autoencoder is built and \<open>composite_mse\<close> is not a metric of its reconstruction output.
\<close>

theorem composite_mse_metric_counterexample:
  "\<not> (case AutoEncoderBase_init (\<lambda>name. if name = ''sgd'' then Some (0::nat) else None)
            DenseAutoEncoder (Inl ''sgd'') ''mse'' () of
         Inl e \<Rightarrow> False
       | Inr m \<Rightarrow> Fn_composite_mse \<in> set (metrics_on m ''reconstruction''))"
  by (simp add: AutoEncoderBase_init_def construct_layers_def metrics_on_def)

text \<open>
  C9. \<open>process_batch\<close> raises its error (a \<open>RuntimeError\<close> with the message about the
  missing labels, the error the specification calls MissingLabelsError) if and only if
  training is requested and no labels tensor is given. When it raises, the session is
  unchanged: no batch has been requested and no call has been made on the grid maker,
  the autoencoder or the model. In every other case the first two calls are the request
  of a batch and the forward pass of the grid maker.
\<close>

theorem process_batch_missing_labels:
  "(isl (fst (process_batch t batch_size labels_tensor train autoencoder s))
      \<longleftrightarrow> train \<and> labels_tensor = None)
   \<and> (train \<and> labels_tensor = None \<longrightarrow>
        process_batch t batch_size labels_tensor train autoencoder s
        = (Inl (RuntimeError [''Labels must be provided for backpropagation'',
                              ''if train == True'']), s))
   \<and> (\<not> (train \<and> labels_tensor = None) \<longrightarrow>
        take 2 (drop (length (calls s))
                  (calls (snd (process_batch t batch_size labels_tensor train autoencoder s))))
        = [Next_batch batch_size, Forward train])"
  by (auto simp: process_batch_def Let_def split: prod.splits option.splits)

theorem process_batch_missing_labels_witness:
  "process_batch
     \<lparr>provider_next_batch = (\<lambda>n p. (p, p + n)), gmaker_forward = (\<lambda>b r. b),
      model_predict_on_batch = (\<lambda>m v. v + m), model_train_on_batch = (\<lambda>m v y. (v + y, Suc m)),
      extract_label = (\<lambda>b. b), constant_ones = (\<lambda>n. 1)\<rparr>
     2 None True None \<lparr>example_provider = 0::nat, model = 0::nat, calls = []\<rparr>
   = (Inl (RuntimeError [''Labels must be provided for backpropagation'',
                         ''if train == True'']),
      \<lparr>example_provider = 0, model = 0, calls = []\<rparr>)
   \<and> calls (snd (process_batch
     \<lparr>provider_next_batch = (\<lambda>n p. (p, p + n)), gmaker_forward = (\<lambda>b r. b),
      model_predict_on_batch = (\<lambda>m v. v + m), model_train_on_batch = (\<lambda>m v y. (v + y, Suc m)),
      extract_label = (\<lambda>b. b), constant_ones = (\<lambda>n. 1)\<rparr>
     2 (Some 0) True None \<lparr>example_provider = 0::nat, model = 0::nat, calls = []\<rparr>))
     = [Next_batch 2, Forward True, Extract_label, Train_on_batch]"
  using process_batch_missing_labels [of
      "\<lparr>provider_next_batch = (\<lambda>n p. (p, p + n)), gmaker_forward = (\<lambda>b r. b),
      model_predict_on_batch = (\<lambda>m v. v + m), model_train_on_batch = (\<lambda>m v y. (v + y, Suc m)),
      extract_label = (\<lambda>b. b), constant_ones = (\<lambda>n. 1)\<rparr>"
      2 None True None "\<lparr>example_provider = 0::nat, model = 0::nat, calls = []\<rparr>"]
  by (simp add: process_batch_def)

section \<open>Properties of the pipeline\<close>

subsection \<open>The dictionary of get\_paths\<close>

lemma update_fresh: "k \<notin> fst ` set al \<Longrightarrow> AList.update k v al = al @ [(k, v)]"
  by (induction al) auto

lemma get_paths_loop_Inr:
  assumes "get_paths_loop idx lines (cur, {}, acc) = Inr ps"
    and "map fst acc = [0..<idx]"
  shows "map fst ps = [0..<idx + length lines]"
  using assms
proof (induction lines arbitrary: idx cur acc)
  case Nil
  then show ?case by simp
next
  case (Cons line rest)
  from Cons.prems(1) obtain label rc lig where pl: "parse_line line = Inr (label, rc, lig)"
    by (auto split: sum.splits)
  have fresh: "idx \<notin> fst ` set acc"
  proof -
    have "fst ` set acc = set (map fst acc)" by simp
    also have "\<dots> = {0..<idx}" using Cons.prems(2) by simp
    finally show ?thesis by simp
  qed
  let ?acc' = "acc @ [(idx, label, rc, lig)]"
  have acc': "map fst ?acc' = [0..<Suc idx]" using Cons.prems(2) by simp
  have "\<exists>cur'. get_paths_loop (Suc idx) rest
                 (cur', {}, AList.update idx (label, rc, lig) acc) = Inr ps"
    using Cons.prems(1) pl by (auto split: if_splits)
  then obtain cur' where step: "get_paths_loop (Suc idx) rest (cur', {}, ?acc') = Inr ps"
    unfolding update_fresh [OF fresh] by blast
  from Cons.IH [OF step acc'] show ?case by simp
qed

lemma get_paths_indexed:
  assumes "get_paths types_file = Inr ps"
  shows "indexed ps" and "length ps = length types_file"
proof -
  have m: "map fst ps = [0..<0 + length types_file]"
    by (rule get_paths_loop_Inr [where acc = "[]" and cur = None])
       (use assms in \<open>simp_all add: get_paths_def\<close>)
  then have "length (map fst ps) = length types_file" by simp
  then show l: "length ps = length types_file" by simp
  show "indexed ps" using m l by (simp add: indexed_def)
qed

lemma get_paths_never_RuntimeError_loop:
  "get_paths_loop idx lines (cur, {}, acc) \<noteq> Inl (RuntimeError msg)"
proof (induction lines arbitrary: idx cur acc)
  case Nil
  then show ?case by simp
next
  case (Cons line rest)
  have pl: "parse_line line \<noteq> Inl (RuntimeError msg)"
    by (auto simp: parse_line_def chunk_def py_int_def Let_def
        split: sum.splits list.splits option.splits if_splits)
  show ?case
    using Cons.IH pl by (auto split: sum.splits)
qed

lemma indexed_lookup:
  assumes "indexed ps" "i < length ps"
  shows "map_of ps i = Some (snd (ps ! i))"
proof -
  have z: "ps = zip (map fst ps) (map snd ps)" by (simp add: zip_map_fst_snd)
  have "map_of (zip (map fst ps) (map snd ps)) (map fst ps ! i) = Some (map snd ps ! i)"
    by (rule map_of_zip_nth) (use assms in \<open>simp_all add: indexed_def\<close>)
  moreover have "map fst ps ! i = i" using assms by (simp add: indexed_def)
  ultimately show ?thesis using z assms by simp
qed

lemma get_paths_never_grouping_error:
  "get_paths types_file \<noteq> Inl (RuntimeError msg)"
  unfolding get_paths_def by (rule get_paths_never_RuntimeError_loop)

subsection \<open>The loops as one pass over the records\<close>

lemma consume_feed:
  assumes "indexed ps"
    and "\<forall>j \<in> set idxs. base + j < length ps \<and> j < length rows"
  shows "consume ps rows dir base idxs st
         = Inr (foldl (group_step dir) st
                  (map (\<lambda>j. item ps (\<lambda>i. rows ! (i - base)) (base + j)) idxs))"
  using assms(2)
proof (induction idxs arbitrary: st)
  case Nil
  then show ?case by simp
next
  case (Cons j rest)
  obtain cur encs dk where st: "st = (cur, encs, dk)" by (cases st) auto
  obtain label rc lig where sm: "snd (ps ! (base + j)) = (label, rc, lig)"
    by (cases "snd (ps ! (base + j))") auto
  have lk: "map_of ps (base + j) = Some (label, rc, lig)"
    using indexed_lookup [OF assms(1), of "base + j"] Cons.prems sm by simp
  have jr: "j < length rows" using Cons.prems by simp
  have rest: "\<forall>j \<in> set rest. base + j < length ps \<and> j < length rows"
    using Cons.prems by simp
  show ?case
    by (simp add: st lk jr Cons.IH [OF rest] group_step_def item_def sm Let_def)
qed

lemma provider_after_Suc:
  "provider_after c bs (Suc k) p = snd (next_batch c bs (provider_after c bs k p))"
  by (simp add: provider_after_def)

lemma fetch_and_encode_at:
  assumes "provider eng = provider_after c bs a p0"
  shows "fetch_and_encode c bs rot eng
         = (batch_rows c bs rot p0 a,
            eng\<lparr>provider := provider_after c bs (Suc a) p0,
                 batches_requested := Suc (batches_requested eng),
                 inferences_run := Suc (inferences_run eng)\<rparr>)"
  using assms
  by (simp add: fetch_and_encode_def batch_rows_def provider_after_Suc Let_def split: prod.splits)

lemma batch_items:
  assumes "0 < bs" "m \<le> bs"
  shows "map (\<lambda>j. item ps (\<lambda>i. batch_rows c bs rot p0 a ! (i - a * bs)) (a * bs + j)) [0..<m]
         = map (item ps (encoding_of c bs rot p0)) [a * bs..<a * bs + m]"
proof -
  have "[a * bs..<a * bs + m] = map (\<lambda>j. j + a * bs) [0..<m]"
    by (simp add: map_add_upt add.commute)
  moreover have "item ps (encoding_of c bs rot p0) (j + a * bs)
        = item ps (\<lambda>i. batch_rows c bs rot p0 a ! (i - a * bs)) (a * bs + j)"
    if "j < m" for j
  proof -
    have "j < bs" using that assms by simp
    then have "(j + a * bs) div bs = a" "(j + a * bs) mod bs = j"
      using assms(1) by simp_all
    then show ?thesis
      by (simp add: item_def encoding_of_def add.commute)
  qed
  ultimately show ?thesis by (simp add: comp_def)
qed

lemma consume_batch:
  assumes "indexed ps" "0 < bs" "m \<le> bs" "a * bs + m \<le> length ps"
    and "m \<le> length (batch_rows c bs rot p0 a)"
  shows "consume ps (batch_rows c bs rot p0 a) dir (a * bs) [0..<m] st
         = Inr (foldl (group_step dir) st
                  (map (item ps (encoding_of c bs rot p0)) [a * bs..<a * bs + m]))"
proof -
  have "\<forall>j \<in> set [0..<m]. a * bs + j < length ps \<and> j < length (batch_rows c bs rot p0 a)"
    using assms by auto
  from consume_feed [OF assms(1) this]
  show ?thesis by (simp only: batch_items [OF assms(2,3)])
qed

lemma batches_loop_feed:
  assumes "indexed ps" "0 < bs" "b * bs \<le> length ps" "a \<le> b"
    and "\<forall>k < b. bs \<le> length (batch_rows c bs rot p0 k)"
    and "provider eng = provider_after c bs a p0"
  shows "batches_loop c ps bs rot dir [a..<b] (eng, st)
         = Inr (eng\<lparr>provider := provider_after c bs b p0,
                     batches_requested := batches_requested eng + (b - a),
                     inferences_run := inferences_run eng + (b - a)\<rparr>,
                foldl (group_step dir) st
                  (map (item ps (encoding_of c bs rot p0)) [a * bs..<b * bs]))"
  using assms(4,6)
proof (induction "b - a" arbitrary: a eng st)
  case 0
  then have "a = b" by simp
  then show ?case using 0 by simp
next
  case (Suc n)
  then have ab: "a < b" and n: "n = b - Suc a" and le: "Suc a \<le> b" by simp_all
  have up: "[a..<b] = a # [Suc a..<b]" using ab by (simp add: upt_conv_Cons)
  let ?eng = "eng\<lparr>provider := provider_after c bs (Suc a) p0,
                 batches_requested := Suc (batches_requested eng),
                 inferences_run := Suc (inferences_run eng)\<rparr>"
  let ?st = "foldl (group_step dir) st
               (map (item ps (encoding_of c bs rot p0)) [a * bs..<a * bs + bs])"
  have "Suc a * bs \<le> b * bs" using le by (simp only: mult_le_mono1)
  then have bound: "a * bs + bs \<le> length ps" using assms(3) by simp
  have rows: "bs \<le> length (batch_rows c bs rot p0 a)" using assms(5) ab by simp
  have cons: "consume ps (batch_rows c bs rot p0 a) dir (a * bs) [0..<bs] st = Inr ?st"
    by (rule consume_batch [OF assms(1,2) _ bound rows]) simp
  have pe: "provider ?eng = provider_after c bs (Suc a) p0" by simp
  have IH: "batches_loop c ps bs rot dir [Suc a..<b] (?eng, ?st)
        = Inr (?eng\<lparr>provider := provider_after c bs b p0,
                     batches_requested := batches_requested ?eng + (b - Suc a),
                     inferences_run := inferences_run ?eng + (b - Suc a)\<rparr>,
                foldl (group_step dir) ?st
                  (map (item ps (encoding_of c bs rot p0)) [Suc a * bs..<b * bs]))"
    by (rule Suc.hyps(1) [OF n le pe])
  have split: "[a * bs..<b * bs] = [a * bs..<a * bs + bs] @ [Suc a * bs..<b * bs]"
  proof -
    have "a * bs \<le> a * bs + bs" by simp
    moreover have "a * bs + bs \<le> b * bs" using \<open>Suc a * bs \<le> b * bs\<close> by (simp add: add.commute)
    ultimately have "[a * bs..<b * bs] = [a * bs..<a * bs + bs] @ [a * bs + bs..<b * bs]"
      by (metis le_Suc_ex upt_add_eq_append)
    then show ?thesis by (simp add: add.commute)
  qed
  have cnt: "Suc (x + (b - Suc a)) = x + (b - a)" for x :: nat
    using ab by simp
  show ?case
    unfolding up
    by (simp add: fetch_and_encode_at [OF Suc.prems(2)] cons IH split cnt del: upt_Suc)
qed

lemma write_encodings_to_disk_eq:
  "write_encodings_to_disk r encs dir dk
   = dk\<lparr>files := (files dk)(fst (to_write dir (r, encs)) \<mapsto> snd (to_write dir (r, encs))),
         written := written dk @ [to_write dir (r, encs)]\<rparr>"
  by (simp add: write_encodings_to_disk_def to_write_def Let_def)

lemma calculate_encodings_feed:
  assumes gp: "get_paths types_file = Inr ps"
    and ne: "ps \<noteq> []"
    and bs: "0 < bs"
    and rows: "\<forall>k \<le> length ps div bs. length (batch_rows c bs rot (provider eng) k) = bs"
  shows "calculate_encodings c bs types_file save_path rot (eng, dk)
         = Inr (eng\<lparr>provider := provider_after c bs (Suc (length ps div bs)) (provider eng),
                     batches_requested := batches_requested eng + Suc (length ps div bs),
                     inferences_run := inferences_run eng + Suc (length ps div bs)\<rparr>,
                final_flush (save_path @ [''encodings''])
                  (foldl (group_step (save_path @ [''encodings'']))
                     (receptors ps ! 0, [], mkdir (save_path @ [''encodings'']) dk)
                     (map (item ps (encoding_of c bs rot (provider eng))) [0..<length ps])))"
proof -
  let ?n = "length ps" and ?dir = "save_path @ [''encodings'']" and ?p0 = "provider eng"
  let ?it = "?n div bs"
  let ?E = "encoding_of c bs rot ?p0"
  have ix: "indexed ps" using gp by (rule get_paths_indexed)
  obtain label0 rec0 lig0 where s0: "snd (ps ! 0) = (label0, rec0, lig0)"
    by (cases "snd (ps ! 0)") auto
  have lk0: "map_of ps 0 = Some (label0, rec0, lig0)"
    using indexed_lookup [OF ix, of 0] ne s0 by simp
  have r0: "receptors ps ! 0 = rec0"
    using ne s0 by (cases "ps ! 0") (simp add: receptors_def)
  have itn: "?it * bs \<le> ?n" by simp
  have p0: "provider eng = provider_after c bs 0 ?p0" by (simp add: provider_after_def)
  let ?st1 = "foldl (group_step ?dir) (rec0, [], mkdir ?dir dk) (map (item ps ?E) [0..<?it * bs])"
  let ?eng1 = "eng\<lparr>provider := provider_after c bs ?it ?p0,
                     batches_requested := batches_requested eng + ?it,
                     inferences_run := inferences_run eng + ?it\<rparr>"
  have "batches_loop c ps bs rot ?dir [0..<?it] (eng, rec0, [], mkdir ?dir dk)
        = Inr (eng\<lparr>provider := provider_after c bs ?it ?p0,
                    batches_requested := batches_requested eng + (?it - 0),
                    inferences_run := inferences_run eng + (?it - 0)\<rparr>,
               foldl (group_step ?dir) (rec0, [], mkdir ?dir dk)
                 (map (item ps ?E) [0 * bs..<?it * bs]))"
    by (rule batches_loop_feed [OF ix bs itn _ _ p0]) (use rows in \<open>simp_all\<close>)
  then have loop: "batches_loop c ps bs rot ?dir [0..<?it] (eng, rec0, [], mkdir ?dir dk)
              = Inr (?eng1, ?st1)"
    by simp
  have pe1: "provider ?eng1 = provider_after c bs ?it ?p0" by simp
  have rem: "?it * bs + ?n mod bs = ?n" by simp
  have cons: "consume ps (batch_rows c bs rot ?p0 ?it) ?dir (?it * bs) [0..<?n mod bs] ?st1
        = Inr (foldl (group_step ?dir) ?st1 (map (item ps ?E) [?it * bs..<?it * bs + ?n mod bs]))"
    by (rule consume_batch [OF ix bs]) (use bs rows in \<open>simp_all\<close>)
  have split: "[0..<?n] = [0..<?it * bs] @ [?it * bs..<?it * bs + ?n mod bs]"
    using upt_add_eq_append [of 0 "?it * bs" "?n mod bs"] by simp
  let ?st2 = "foldl (group_step ?dir) (rec0, [], mkdir ?dir dk) (map (item ps ?E) [0..<?n])"
  have st2: "foldl (group_step ?dir) ?st1 (map (item ps ?E) [?it * bs..<?it * bs + ?n mod bs]) = ?st2"
  proof -
    have "map (item ps ?E) [0..<?n]
          = map (item ps ?E) [0..<?it * bs]
            @ map (item ps ?E) [?it * bs..<?it * bs + ?n mod bs]"
      using split by (metis map_append)
    then show ?thesis by (simp only: foldl_append)
  qed
  have cons2: "consume ps (batch_rows c bs rot ?p0 ?it) ?dir (?it * bs) [0..<?n mod bs] ?st1
               = Inr ?st2"
    using cons st2 by simp
  obtain cur encs dk' where st2c: "?st2 = (cur, encs, dk')" by (cases ?st2) auto
  show ?thesis
    unfolding calculate_encodings_def
    using bs
    by (simp add: gp lk0 loop fetch_and_encode_at [OF pe1] cons2 r0 st2c final_flush_def
        Let_def del: upt_Suc)
qed

subsection \<open>The writes of one pass are the runs of the receptors\<close>

lemma group_step_pair:
  "group_step dir (cur, encs, dk) (r, e)
   = (if r \<noteq> cur then (r, [e], write_encodings_to_disk cur encs dir dk)
      else (cur, encs @ [e], dk))"
  by (simp add: group_step_def)

lemma runs_not_Nil [simp]: "runs cur acc xs \<noteq> []"
  by (induction xs arbitrary: cur acc) (auto split: if_splits)

lemma feed_runs:
  "foldl (group_step dir) (cur, acc, dk) xs = (cur', acc', dk') \<Longrightarrow>
   (cur', acc') = last (runs cur acc xs)
   \<and> written dk' = written dk @ map (to_write dir) (butlast (runs cur acc xs))
   \<and> dirs dk' = dirs dk"
proof (induction xs arbitrary: cur acc dk)
  case Nil
  then show ?case by simp
next
  case (Cons x xs)
  obtain r e where x: "x = (r, e)" by (cases x) auto
  show ?case
  proof (cases "r = cur")
    case True
    with Cons.prems x have "foldl (group_step dir) (cur, acc @ [e], dk) xs = (cur', acc', dk')"
      by (simp add: group_step_pair)
    from Cons.IH [OF this] show ?thesis using True x by simp
  next
    case False
    with Cons.prems x
    have "foldl (group_step dir) (r, [e], write_encodings_to_disk cur acc dir dk) xs
          = (cur', acc', dk')"
      by (simp add: group_step_pair)
    from Cons.IH [OF this] show ?thesis
      using False x by (simp add: write_encodings_to_disk_eq)
  qed
qed

lemma runs_last_nonempty:
  "acc \<noteq> [] \<or> xs \<noteq> [] \<Longrightarrow> snd (last (runs cur acc xs)) \<noteq> []"
proof (induction xs arbitrary: cur acc)
  case Nil
  then show ?case by simp
next
  case (Cons x xs)
  obtain r e where x: "x = (r, e)" by (cases x) auto
  show ?case using Cons.IH [of "[e]" r] Cons.IH [of "acc @ [e]" cur] x by simp
qed

lemma final_flush_runs:
  assumes "acc \<noteq> [] \<or> xs \<noteq> []"
  shows "written (final_flush dir (foldl (group_step dir) (cur, acc, dk) xs))
         = written dk @ map (to_write dir) (runs cur acc xs)"
    and "dirs (final_flush dir (foldl (group_step dir) (cur, acc, dk) xs)) = dirs dk"
proof -
  obtain cur' acc' dk' where f: "foldl (group_step dir) (cur, acc, dk) xs = (cur', acc', dk')"
    by (cases "foldl (group_step dir) (cur, acc, dk) xs") auto
  note fr = feed_runs [OF f]
  have ne: "acc' \<noteq> []" using runs_last_nonempty [OF assms, of cur] fr by (metis snd_conv)
  have "runs cur acc xs = butlast (runs cur acc xs) @ [(cur', acc')]"
    using fr by (metis append_butlast_last_id runs_not_Nil)
  then have "map (to_write dir) (runs cur acc xs)
             = map (to_write dir) (butlast (runs cur acc xs)) @ [to_write dir (cur', acc')]"
    by (metis list.simps(8,9) map_append)
  then show "written (final_flush dir (foldl (group_step dir) (cur, acc, dk) xs))
         = written dk @ map (to_write dir) (runs cur acc xs)"
    using ne fr by (simp add: f final_flush_def write_encodings_to_disk_eq)
  show "dirs (final_flush dir (foldl (group_step dir) (cur, acc, dk) xs)) = dirs dk"
    using fr by (simp add: f final_flush_def write_encodings_to_disk_eq)
qed

lemma concat_runs: "concat (map snd (runs cur acc xs)) = acc @ map snd xs"
  by (induction xs arbitrary: cur acc) auto

lemma members_Nil [simp]: "members r [] = []"
  by (simp add: members_def)

lemma members_Cons [simp]:
  "members r ((q, e) # xs) = (if q = r then e # members r xs else members r xs)"
  by (simp add: members_def)

lemma members_absent: "r \<notin> fst ` set xs \<Longrightarrow> members r xs = []"
  by (induction xs) (auto simp: members_def)

lemma tl_remdups_adj_notin:
  assumes "distinct (remdups_adj (x # ys))"
  shows "x \<notin> set (tl (remdups_adj (x # ys)))"
proof -
  have "x # tl (remdups_adj (x # ys)) = remdups_adj (x # ys)"
    by (rule remdups_adj_Cons_alt)
  then have "distinct (x # tl (remdups_adj (x # ys)))" using assms by (simp only:)
  then show ?thesis by (simp only: distinct.simps) simp
qed

lemma runs_grouped:
  assumes "distinct (remdups_adj (cur # map fst xs))"
  shows "runs cur acc xs
         = (cur, acc @ members cur xs)
           # map (\<lambda>r. (r, members r xs)) (tl (remdups_adj (cur # map fst xs)))"
  using assms
proof (induction xs arbitrary: cur acc)
  case Nil
  then show ?case by simp
next
  case (Cons x xs)
  obtain q e where x: "x = (q, e)" by (cases x) auto
  show ?case
  proof (cases "q = cur")
    case True
    have d: "distinct (remdups_adj (cur # map fst xs))"
      using Cons.prems x True by simp
    have notin: "cur \<notin> set (tl (remdups_adj (cur # map fst xs)))"
      by (rule tl_remdups_adj_notin [OF d])
    have "map (\<lambda>r. (r, members r ((cur, e) # xs))) (tl (remdups_adj (cur # map fst xs)))
          = map (\<lambda>r. (r, members r xs)) (tl (remdups_adj (cur # map fst xs)))"
      by (rule map_cong) (use notin in auto)
    then show ?thesis
      using Cons.IH [OF d, of "acc @ [e]"] x True by simp
  next
    case False
    have eq: "remdups_adj (cur # map fst (x # xs)) = cur # remdups_adj (q # map fst xs)"
      using x False by simp
    then have d: "distinct (remdups_adj (q # map fst xs))"
      and c: "cur \<notin> set (q # map fst xs)"
      using Cons.prems by (simp_all del: remdups_adj.simps)
    have notin: "q \<notin> set (tl (remdups_adj (q # map fst xs)))"
      by (rule tl_remdups_adj_notin [OF d])
    have m0: "members cur ((q, e) # xs) = []"
      using c False by (simp add: members_absent)
    have rest: "map (\<lambda>r. (r, members r ((q, e) # xs))) (tl (remdups_adj (q # map fst xs)))
          = map (\<lambda>r. (r, members r xs)) (tl (remdups_adj (q # map fst xs)))"
      by (rule map_cong) (use notin in auto)
    have "runs cur acc (x # xs) = (cur, acc) # runs q [e] xs"
      using x False by simp
    also have "runs q [e] xs = (q, [e] @ members q xs)
           # map (\<lambda>r. (r, members r xs)) (tl (remdups_adj (q # map fst xs)))"
      by (rule Cons.IH [OF d])
    also have "(cur, acc) # \<dots>
       = (cur, acc @ members cur (x # xs))
         # map (\<lambda>r. (r, members r (x # xs))) (q # tl (remdups_adj (q # map fst xs)))"
      using m0 rest x by (simp del: remdups_adj_Cons_alt)
    also have "q # tl (remdups_adj (q # map fst xs)) = tl (remdups_adj (cur # map fst (x # xs)))"
      unfolding eq by (simp only: list.sel remdups_adj_Cons_alt)
    finally show ?thesis .
  qed
qed

lemma runs_grouped_start:
  assumes "distinct (remdups_adj (map fst xs))" "xs \<noteq> []"
  shows "runs (fst (hd xs)) [] xs = map (\<lambda>r. (r, members r xs)) (remdups_adj (map fst xs))"
proof -
  obtain q e ys where xs: "xs = (q, e) # ys" using assms(2) by (cases xs) auto
  have r: "remdups_adj (q # map fst xs) = remdups_adj (map fst xs)" by (simp add: xs)
  have d: "distinct (remdups_adj (q # map fst xs))" using assms(1) r by simp
  have "runs q [] xs = (q, [] @ members q xs)
         # map (\<lambda>r. (r, members r xs)) (tl (remdups_adj (q # map fst xs)))"
    by (rule runs_grouped [OF d])
  also have "\<dots> = map (\<lambda>r. (r, members r xs)) (q # tl (remdups_adj (q # map fst xs)))"
    by (simp del: remdups_adj_Cons_alt)
  also have "q # tl (remdups_adj (q # map fst xs)) = remdups_adj (map fst xs)"
    using r by (metis remdups_adj_Cons_alt)
  finally show ?thesis by (simp add: xs)
qed

lemma remdups_adj_grouped_Cons:
  "distinct (remdups_adj (x # xs)) \<Longrightarrow>
   remdups_adj (x # xs) = x # remdups_adj (filter (\<lambda>y. y \<noteq> x) xs)"
proof (induction xs)
  case Nil
  then show ?case by simp
next
  case (Cons y ys)
  show ?case
  proof (cases "y = x")
    case True
    then show ?thesis using Cons by simp
  next
    case False
    then have "remdups_adj (x # y # ys) = x # remdups_adj (y # ys)" by simp
    moreover from this Cons.prems have "x \<notin> set (y # ys)"
      by (simp del: remdups_adj.simps)
    then have "filter (\<lambda>z. z \<noteq> x) (y # ys) = y # ys"
      by (simp add: filter_id_conv del: filter.simps) auto
    ultimately show ?thesis by simp
  qed
qed

lemma first_seen_grouped: "grouped xs \<Longrightarrow> first_seen xs = remdups_adj xs"
proof (induction xs rule: first_seen.induct)
  case 1
  then show ?case by simp
next
  case (2 x xs)
  from "2.prems" have d: "distinct (remdups_adj (x # xs))" by (simp add: grouped_def)
  note eq = remdups_adj_grouped_Cons [OF d]
  from d eq have "distinct (remdups_adj (filter (\<lambda>y. y \<noteq> x) xs))" by simp
  then have "first_seen (filter (\<lambda>y. y \<noteq> x) xs) = remdups_adj (filter (\<lambda>y. y \<noteq> x) xs)"
    using "2.IH" by (simp add: grouped_def)
  then show ?case using eq by simp
qed

lemma set_first_seen: "set (first_seen xs) = set xs"
  by (induction xs rule: first_seen.induct) auto

lemma distinct_first_seen: "distinct (first_seen xs)"
  by (induction xs rule: first_seen.induct) (auto simp: set_first_seen)

lemma fst_item: "i < length ps \<Longrightarrow> fst (item ps E i) = receptors ps ! i"
  by (cases "ps ! i") (simp add: item_def receptors_def split: prod.splits)

lemma map_fst_items: "map fst (map (item ps E) [0..<length ps]) = receptors ps"
  by (rule nth_equalityI) (simp_all add: fst_item receptors_def)

lemma entry_of_item:
  "(\<lambda>(label, lig_path, lig_encoding).
      \<lparr>lig_path = lig_path, embedding = lig_encoding, lig_label = label\<rparr>)
     (snd (item ps (encoding_of c bs rot p) i))
   = ligand_of c bs rot p ps i"
  by (simp add: item_def ligand_of_def split: prod.splits)

lemma members_items:
  "members r (map (item ps E) [0..<length ps])
   = map (\<lambda>i. snd (item ps E i)) (filter (\<lambda>i. receptors ps ! i = r) [0..<length ps])"
proof -
  have "filter ((\<lambda>x. fst x = r) \<circ> item ps E) [0..<length ps]
        = filter (\<lambda>i. receptors ps ! i = r) [0..<length ps]"
    by (rule filter_cong) (simp_all add: fst_item)
  then show ?thesis by (simp add: members_def filter_map comp_def)
qed

lemma to_write_group:
  "to_write (save_path @ [''encodings''])
     (r, members r (map (item ps (encoding_of c bs rot p)) [0..<length ps]))
   = (group_file save_path r, group_of c bs rot p ps r)"
  by (simp add: to_write_def group_file_def group_of_def members_items comp_def entry_of_item)

subsection \<open>Where the writes go\<close>

lemma flushes_into_refl: "flushes_into dir dk dk"
  by (simp add: flushes_into_def store_all_def)

lemma flushes_into_write:
  assumes "flushes_into dir dk dk1"
  shows "flushes_into dir dk (write_encodings_to_disk r encs dir dk1)"
proof -
  from assms obtain ws where ws: "written dk1 = written dk @ ws"
    "\<forall>w \<in> set ws. fst w = dir @ [path_stem (rec_path (snd w)) @ ''.bin'']"
    "files dk1 = store_all ws (files dk)" and d: "dirs dk1 = dirs dk"
    by (auto simp: flushes_into_def)
  let ?w = "to_write dir (r, encs)"
  have "written (write_encodings_to_disk r encs dir dk1) = written dk @ (ws @ [?w])"
    using ws by (simp add: write_encodings_to_disk_eq)
  moreover have "\<forall>w \<in> set (ws @ [?w]). fst w = dir @ [path_stem (rec_path (snd w)) @ ''.bin'']"
    using ws by (simp add: to_write_def)
  moreover have "files (write_encodings_to_disk r encs dir dk1) = store_all (ws @ [?w]) (files dk)"
    using ws by (simp add: write_encodings_to_disk_eq store_all_def)
  moreover have "dirs (write_encodings_to_disk r encs dir dk1) = dirs dk"
    using d by (simp add: write_encodings_to_disk_eq)
  ultimately show ?thesis unfolding flushes_into_def by blast
qed

lemma consume_flushes_into:
  assumes "consume ps rows dir base idxs (cur, encs, dk1) = Inr (cur', encs', dk2)"
    and "flushes_into dir dk dk1"
  shows "flushes_into dir dk dk2"
  using assms
proof (induction idxs arbitrary: cur encs dk1)
  case Nil
  then show ?case by simp
next
  case (Cons j rest)
  from Cons.prems(1) obtain label rc lig where lk: "map_of ps (base + j) = Some (label, rc, lig)"
    by (auto split: option.splits)
  from Cons.prems(1) lk have jr: "j < length rows"
    by (auto simp: Let_def split: if_splits)
  show ?case
  proof (cases "rc = cur")
    case True
    with Cons.prems(1) lk jr
    have "consume ps rows dir base rest (cur, encs @ [(label, lig, rows ! j)], dk1)
          = Inr (cur', encs', dk2)"
      by simp
    from Cons.IH [OF this Cons.prems(2)] show ?thesis .
  next
    case False
    with Cons.prems(1) lk jr
    have "consume ps rows dir base rest
            (rc, [(label, lig, rows ! j)], write_encodings_to_disk cur encs dir dk1)
          = Inr (cur', encs', dk2)"
      by simp
    from Cons.IH [OF this flushes_into_write [OF Cons.prems(2)]] show ?thesis .
  qed
qed

lemma batches_loop_flushes_into:
  assumes "batches_loop c ps bs rot dir ks (eng, cur, encs, dk1) = Inr (eng', cur', encs', dk2)"
    and "flushes_into dir dk dk1"
  shows "flushes_into dir dk dk2"
  using assms
proof (induction ks arbitrary: eng cur encs dk1)
  case Nil
  then show ?case by simp
next
  case (Cons k rest)
  obtain rows eng1 where fe: "fetch_and_encode c bs rot eng = (rows, eng1)"
    by (cases "fetch_and_encode c bs rot eng") auto
  from Cons.prems(1) fe obtain cur1 encs1 dk1' where
    cs: "consume ps rows dir (k * bs) [0..<bs] (cur, encs, dk1) = Inr (cur1, encs1, dk1')"
    and bl: "batches_loop c ps bs rot dir rest (eng1, cur1, encs1, dk1') = Inr (eng', cur', encs', dk2)"
    by (auto split: sum.splits)
  from Cons.IH [OF bl consume_flushes_into [OF cs Cons.prems(2)]] show ?case .
qed

lemma calculate_encodings_flushes_into:
  assumes "calculate_encodings c bs types_file save_path rot (eng, dk) = Inr (eng', dk')"
  shows "flushes_into (save_path @ [''encodings'']) (mkdir (save_path @ [''encodings'']) dk) dk'"
proof -
  let ?dir = "save_path @ [''encodings'']"
  from assms obtain ps where gp: "get_paths types_file = Inr ps"
    by (auto simp: calculate_encodings_def split: sum.splits)
  from assms gp have bs: "bs \<noteq> 0"
    by (auto simp: calculate_encodings_def Let_def split: if_splits)
  from assms gp bs obtain label0 rec0 lig0 where lk: "map_of ps 0 = Some (label0, rec0, lig0)"
    by (auto simp: calculate_encodings_def Let_def split: option.splits)
  from assms gp bs lk obtain eng1 cur1 encs1 dk1 where
    bl: "batches_loop c ps bs rot ?dir [0..<length ps div bs] (eng, rec0, [], mkdir ?dir dk)
         = Inr (eng1, cur1, encs1, dk1)"
    by (auto simp: calculate_encodings_def Let_def split: sum.splits)
  obtain rows eng2 where fe: "fetch_and_encode c bs rot eng1 = (rows, eng2)"
    by (cases "fetch_and_encode c bs rot eng1") auto
  from assms gp bs lk bl fe obtain cur2 encs2 dk2 where
    cs: "consume ps rows ?dir (length ps div bs * bs) [0..<length ps mod bs] (cur1, encs1, dk1)
         = Inr (cur2, encs2, dk2)"
    and fin: "dk' = (if encs2 \<noteq> [] then write_encodings_to_disk cur2 encs2 ?dir dk2 else dk2)"
    by (auto simp: calculate_encodings_def Let_def split: sum.splits)
  have 1: "flushes_into ?dir (mkdir ?dir dk) dk1"
    by (rule batches_loop_flushes_into [OF bl flushes_into_refl])
  have 2: "flushes_into ?dir (mkdir ?dir dk) dk2"
    by (rule consume_flushes_into [OF cs 1])
  show ?thesis using 2 flushes_into_write [OF 2] fin by simp
qed

lemma mkdir_idem: "mkdir d (mkdir d dk) = mkdir d dk"
  by (simp add: mkdir_def)

lemma mkdir_parents: "k \<le> length d \<Longrightarrow> take k d \<in> dirs (mkdir d dk)"
  by (auto simp: mkdir_def)

subsection \<open>The examples\<close>

lemma example_get_paths: "get_paths example_types_file = Inr example_paths"
  unfolding example_types_file_def example_paths_def by code_simp

lemma example_seven_get_paths: "get_paths example_seven = Inr example_seven_paths"
  unfolding example_seven_def example_seven_paths_def by code_simp

lemma example_ABA_get_paths: "get_paths example_ABA = Inr example_ABA_paths"
  unfolding example_ABA_def example_ABA_paths_def by code_simp

lemma example_rows:
  "length (batch_rows example_collaborators bs rot p k) = bs"
  by (simp add: batch_rows_def example_collaborators_def split: prod.splits)

lemma example_grouped: "grouped (receptors example_paths)"
  by (simp add: grouped_def receptors_def example_paths_def)

subsection \<open>The claims\<close>

text \<open>
  C1, evaluated on the source. The types file with the receptors A, B, A is accepted:
  \<open>get_paths\<close> returns the three records and raises nothing, because nothing is ever
  added to the set \<open>recs\<close> its test reads.
\<close>

theorem get_paths_accepts_ABA:
  "get_paths [''1 A l1'', ''0 B l2'', ''1 A l3'']
   = Inr [(0, 1, ''A'', ''l1''), (1, 0, ''B'', ''l2''), (2, 1, ''A'', ''l3'')]"
  by code_simp

text \<open>
  What follows from it: the pipeline runs to its end on that file and writes the file
  of receptor A twice, the second write (one ligand) replacing the first.
\<close>

lemma ABA_written_twice:
  "\<exists>eng' dk'.
     calculate_encodings example_collaborators 1 example_ABA [''out''] False example_world
       = Inr (eng', dk')
     \<and> map (\<lambda>w. (fst w, map lig_path (ligand (snd w)))) (new_writes (snd example_world) dk')
       = [([''out'', ''encodings'', ''A.bin''], [''l1'']),
          ([''out'', ''encodings'', ''B.bin''], [''l2'']),
          ([''out'', ''encodings'', ''A.bin''], [''l3''])]"
proof -
  let ?dir = "[''out''] @ [''encodings'']"
  let ?E = "encoding_of example_collaborators 1 False (provider (fst example_world))"
  let ?items = "map (item example_ABA_paths ?E) [0..<length example_ABA_paths]"
  have ne: "example_ABA_paths \<noteq> []" by (simp add: example_ABA_paths_def)
  have bs: "0 < (1::nat)" by simp
  have rows: "\<forall>k \<le> length example_ABA_paths div 1.
                length (batch_rows example_collaborators 1 False (provider (fst example_world)) k) = 1"
    by (simp add: example_rows)
  have w: "(fst example_world, snd example_world) = example_world" by simp
  note run = calculate_encodings_feed [OF example_ABA_get_paths ne bs rows,
      of "[''out'']" "snd example_world", unfolded w]
  have items: "?items = [(''A'', 1, ''l1'', ?E 0), (''B'', 0, ''l2'', ?E 1), (''A'', 1, ''l3'', ?E (Suc (Suc 0)))]"
    by (simp add: example_ABA_paths_def item_def upt_rec [of 0] upt_rec [of 1] upt_rec [of 2])
  have r0: "receptors example_ABA_paths ! 0 = ''A''"
    by (simp add: receptors_def example_ABA_paths_def)
  have "written (final_flush ?dir
          (foldl (group_step ?dir) (receptors example_ABA_paths ! 0, [],
                                    mkdir ?dir (snd example_world)) ?items))
        = written (mkdir ?dir (snd example_world))
          @ map (to_write ?dir) (runs (receptors example_ABA_paths ! 0) [] ?items)"
    by (rule final_flush_runs(1)) (simp add: ne)
  then have m: "map (\<lambda>w. (fst w, map lig_path (ligand (snd w))))
        (new_writes (snd example_world) (final_flush ?dir
          (foldl (group_step ?dir) (receptors example_ABA_paths ! 0, [],
                                    mkdir ?dir (snd example_world)) ?items)))
      = [([''out'', ''encodings'', ''A.bin''], [''l1'']),
         ([''out'', ''encodings'', ''B.bin''], [''l2'']),
         ([''out'', ''encodings'', ''A.bin''], [''l3''])]"
    unfolding items r0
    by (simp add: new_writes_def mkdir_def to_write_def path_stem_def path_name_def
        rfind_dot_def Let_def)
  show ?thesis by (intro exI conjI) (rule run, rule m)
qed

text \<open>
  C2. For a types file that is not empty and is grouped by receptor, and every positive
  batch size (the encoder returning one row for each example of a batch), the pipeline
  succeeds, and the writes it makes are, in order, one for each receptor in the order of
  first appearance: the file of that receptor, holding the records of that receptor in
  file order, each with the encoding of its own position. The receptors written are
  distinct and are all the receptors of the file, so every record is in exactly one group.
\<close>

theorem pipeline_groups:
  assumes gp: "get_paths types_file = Inr ps"
    and ne: "ps \<noteq> []"
    and gr: "grouped (receptors ps)"
    and bs: "0 < batch_size"
    and rows: "\<forall>k \<le> length ps div batch_size.
                 length (batch_rows c batch_size random_rotation (provider eng) k) = batch_size"
  shows "\<exists>eng' dk'.
           calculate_encodings c batch_size types_file save_path random_rotation (eng, dk)
             = Inr (eng', dk')
           \<and> new_writes dk dk'
             = map (\<lambda>r. (group_file save_path r,
                         group_of c batch_size random_rotation (provider eng) ps r))
                 (first_seen (receptors ps))
           \<and> distinct (first_seen (receptors ps))
           \<and> set (first_seen (receptors ps)) = set (receptors ps)"
proof -
  let ?dir = "save_path @ [''encodings'']"
  let ?E = "encoding_of c batch_size random_rotation (provider eng)"
  let ?items = "map (item ps ?E) [0..<length ps]"
  have items_ne: "?items \<noteq> []" using ne by simp
  have hd_items: "fst (hd ?items) = receptors ps ! 0"
    using ne by (simp add: hd_map upt_conv_Cons fst_item del: upt_Suc)
  have d: "distinct (remdups_adj (map fst ?items))"
    using gr by (simp only: map_fst_items grouped_def)
  have runs_eq: "runs (receptors ps ! 0) [] ?items
        = map (\<lambda>r. (r, members r ?items)) (first_seen (receptors ps))"
    using runs_grouped_start [OF d items_ne] hd_items
    by (simp only: map_fst_items first_seen_grouped [OF gr])
  note run = calculate_encodings_feed [OF gp ne bs rows, of save_path dk]
  have w: "written (final_flush ?dir
              (foldl (group_step ?dir) (receptors ps ! 0, [], mkdir ?dir dk) ?items))
           = written (mkdir ?dir dk) @ map (to_write ?dir) (runs (receptors ps ! 0) [] ?items)"
    by (rule final_flush_runs(1)) (use items_ne in blast)
  have "map (to_write ?dir) (runs (receptors ps ! 0) [] ?items)
        = map (\<lambda>r. (group_file save_path r,
                     group_of c batch_size random_rotation (provider eng) ps r))
            (first_seen (receptors ps))"
    unfolding runs_eq by (simp add: comp_def to_write_group)
  with w have "new_writes dk (final_flush ?dir
              (foldl (group_step ?dir) (receptors ps ! 0, [], mkdir ?dir dk) ?items))
        = map (\<lambda>r. (group_file save_path r,
                     group_of c batch_size random_rotation (provider eng) ps r))
            (first_seen (receptors ps))"
    by (simp add: new_writes_def mkdir_def)
  with run show ?thesis
    by (simp add: distinct_first_seen set_first_seen)
qed

theorem pipeline_groups_witness:
  "get_paths example_types_file = Inr example_paths
   \<and> example_paths \<noteq> []
   \<and> grouped (receptors example_paths)
   \<and> (\<exists>eng' dk'.
        calculate_encodings example_collaborators 2 example_types_file [''out''] False
          example_world = Inr (eng', dk')
        \<and> map (\<lambda>w. (fst w, length (ligand (snd w)))) (new_writes (snd example_world) dk')
          = [([''out'', ''encodings'', ''A.bin''], 3),
             ([''out'', ''encodings'', ''B.bin''], 2),
             ([''out'', ''encodings'', ''C.bin''], 1)])"
proof -
  have ne: "example_paths \<noteq> []" by (simp add: example_paths_def)
  have rows: "\<forall>k \<le> length example_paths div 2.
                length (batch_rows example_collaborators 2 False (provider (fst example_world)) k) = 2"
    by (simp add: example_rows)
  have ev: "map (\<lambda>r. (group_file [''out''] r,
                      length (ligand (group_of example_collaborators 2 False
                                        (provider (fst example_world)) example_paths r))))
              (first_seen (receptors example_paths))
            = [([''out'', ''encodings'', ''A.bin''], 3),
               ([''out'', ''encodings'', ''B.bin''], 2),
               ([''out'', ''encodings'', ''C.bin''], 1)]"
    by (simp add: group_file_def group_of_def receptors_def example_paths_def
        path_stem_def path_name_def rfind_dot_def Let_def)
  from pipeline_groups [OF example_get_paths ne example_grouped _ rows,
      of "[''out'']" "snd example_world"]
  obtain eng' dk' where
    "calculate_encodings example_collaborators 2 example_types_file [''out''] False
       example_world = Inr (eng', dk')"
    "new_writes (snd example_world) dk'
     = map (\<lambda>r. (group_file [''out''] r,
                 group_of example_collaborators 2 False (provider (fst example_world))
                   example_paths r))
         (first_seen (receptors example_paths))"
    by auto
  then show ?thesis
    using example_get_paths ne example_grouped ev by (auto simp: comp_def)
qed

text \<open>
  C4, as the source has it. For a types file that is not empty and every positive batch
  size, the pipeline requests \<open>total div batch_size + 1\<close> batches and runs as many
  inferences, whether or not the remainder is zero, and the groups it writes hold, in
  file order, all \<open>total\<close> records, the record at position \<open>i\<close> with row
  \<open>i mod batch_size\<close> of batch \<open>i div batch_size\<close>: of the last batch exactly the first
  \<open>total mod batch_size\<close> rows are used.
\<close>

theorem pipeline_batches:
  assumes gp: "get_paths types_file = Inr ps"
    and ne: "ps \<noteq> []"
    and bs: "0 < batch_size"
    and rows: "\<forall>k \<le> length ps div batch_size.
                 length (batch_rows c batch_size random_rotation (provider eng) k) = batch_size"
  shows "\<exists>eng' dk'.
           calculate_encodings c batch_size types_file save_path random_rotation (eng, dk)
             = Inr (eng', dk')
           \<and> batches_requested eng' = batches_requested eng + length ps div batch_size + 1
           \<and> inferences_run eng' = inferences_run eng + length ps div batch_size + 1
           \<and> provider eng'
             = provider_after c batch_size (length ps div batch_size + 1) (provider eng)
           \<and> concat (map (\<lambda>w. ligand (snd w)) (new_writes dk dk'))
             = map (ligand_of c batch_size random_rotation (provider eng) ps) [0..<length ps]
           \<and> sum_list (map (\<lambda>w. length (ligand (snd w))) (new_writes dk dk')) = length ps"
proof -
  let ?dir = "save_path @ [''encodings'']"
  let ?E = "encoding_of c batch_size random_rotation (provider eng)"
  let ?items = "map (item ps ?E) [0..<length ps]"
  let ?mk = "\<lambda>(label, lig_path, lig_encoding).
               \<lparr>lig_path = lig_path, embedding = lig_encoding, lig_label = label\<rparr>"
  let ?dk' = "final_flush ?dir
                (foldl (group_step ?dir) (receptors ps ! 0, [], mkdir ?dir dk) ?items)"
  have items_ne: "?items \<noteq> []" using ne by simp
  note run = calculate_encodings_feed [OF gp ne bs rows, of save_path dk]
  have w: "written ?dk'
           = written (mkdir ?dir dk) @ map (to_write ?dir) (runs (receptors ps ! 0) [] ?items)"
    by (rule final_flush_runs(1)) (use items_ne in blast)
  then have nw: "new_writes dk ?dk' = map (to_write ?dir) (runs (receptors ps ! 0) [] ?items)"
    by (simp add: new_writes_def mkdir_def)
  have "concat (map (\<lambda>w. ligand (snd w)) (new_writes dk ?dk'))
        = concat (map (\<lambda>g. map ?mk (snd g)) (runs (receptors ps ! 0) [] ?items))"
    unfolding nw by (simp add: comp_def to_write_def)
  also have "\<dots> = map ?mk (concat (map snd (runs (receptors ps ! 0) [] ?items)))"
    by (simp add: map_concat comp_def)
  also have "\<dots> = map ?mk (map snd ?items)"
    by (simp only: concat_runs append_Nil)
  also have "\<dots> = map (ligand_of c batch_size random_rotation (provider eng) ps) [0..<length ps]"
    by (simp add: comp_def entry_of_item)
  finally have c: "concat (map (\<lambda>w. ligand (snd w)) (new_writes dk ?dk'))
        = map (ligand_of c batch_size random_rotation (provider eng) ps) [0..<length ps]" .
  have "sum_list (map (\<lambda>w. length (ligand (snd w))) (new_writes dk ?dk'))
        = length (concat (map (\<lambda>w. ligand (snd w)) (new_writes dk ?dk')))"
    by (simp add: length_concat comp_def)
  also have "\<dots> = length ps" unfolding c by simp
  finally have l: "sum_list (map (\<lambda>w. length (ligand (snd w))) (new_writes dk ?dk')) = length ps" .
  from run c l show ?thesis by simp
qed

theorem pipeline_batches_witness:
  "get_paths example_seven = Inr example_seven_paths
   \<and> length example_seven_paths = 7
   \<and> (\<exists>eng' dk'.
        calculate_encodings example_collaborators 3 example_seven [''out''] False
          example_world = Inr (eng', dk')
        \<and> batches_requested eng' = 3
        \<and> inferences_run eng' = 3
        \<and> sum_list (map (\<lambda>w. length (ligand (snd w))) (new_writes (snd example_world) dk')) = 7)"
proof -
  have ne: "example_seven_paths \<noteq> []" and len: "length example_seven_paths = 7"
    by (simp_all add: example_seven_paths_def)
  have bs: "0 < (3::nat)" by simp
  have rows: "\<forall>k \<le> length example_seven_paths div 3.
                length (batch_rows example_collaborators 3 False (provider (fst example_world)) k) = 3"
    by (simp add: example_rows)
  have w: "(fst example_world, snd example_world) = example_world" by simp
  have c: "batches_requested (fst example_world) + length example_seven_paths div 3 + 1 = 3"
    "inferences_run (fst example_world) + length example_seven_paths div 3 + 1 = 3"
    by (simp_all add: len example_world_def)
  note t = pipeline_batches [OF example_seven_get_paths ne bs rows,
      of "[''out'']" "snd example_world", unfolded w]
  from t obtain eng' dk' where r:
    "calculate_encodings example_collaborators 3 example_seven [''out''] False
       example_world = Inr (eng', dk')"
    "batches_requested eng'
     = batches_requested (fst example_world) + length example_seven_paths div 3 + 1"
    "inferences_run eng'
     = inferences_run (fst example_world) + length example_seven_paths div 3 + 1"
    "sum_list (map (\<lambda>w. length (ligand (snd w))) (new_writes (snd example_world) dk'))
     = length example_seven_paths"
    by blast
  have "batches_requested eng' = 3" "inferences_run eng' = 3"
    "sum_list (map (\<lambda>w. length (ligand (snd w))) (new_writes (snd example_world) dk')) = 7"
    using r(2,3,4) c len by (simp_all only:)
  with r(1) show ?thesis
    using example_seven_get_paths len by blast
qed

text \<open>
  C4, as the specification states it, fails for the empty types file: the first group
  leader is read from position 0 before any batch is requested, and the run ends with a
  \<open>KeyError\<close> instead of one requested and discarded batch.
\<close>

theorem empty_types_file_counterexample:
  "calculate_encodings example_collaborators 3 [] [''out''] False example_world = Inl KeyError"
  by (simp add: calculate_encodings_def get_paths_def)

text \<open>
  C8. \<open>write_encodings_to_disk\<close> stores the message of the group under the name made
  of the stem of the receptor path and \<open>.bin\<close> in the directory it is given, replacing
  what the file held, and this is its only write. \<open>mkdir\<close> creates the directory with
  its parents, changes no file, removes no directory and can be repeated without effect.
  In a run of the pipeline that succeeds, every write goes to
  \<open>save_path/encodings/stem.bin\<close> of the receptor of its message, the files at the end
  are the files at the start with these writes stored in order, and the directory
  \<open>save_path/encodings\<close> exists with its parents.
\<close>

theorem flush_files:
  "files (write_encodings_to_disk rec encodings encodings_dir dk0)
     = (files dk0)(encodings_dir @ [path_stem rec @ ''.bin'']
          \<mapsto> \<lparr>rec_path = rec,
               ligand = map (\<lambda>(label, lig_path, lig_encoding).
                              \<lparr>lig_path = lig_path, embedding = lig_encoding,
                               lig_label = label\<rparr>) encodings\<rparr>)
   \<and> map fst (new_writes dk0 (write_encodings_to_disk rec encodings encodings_dir dk0))
     = [encodings_dir @ [path_stem rec @ ''.bin'']]
   \<and> mkdir d (mkdir d dk0) = mkdir d dk0
   \<and> (\<forall>k \<le> length d. take k d \<in> dirs (mkdir d dk0))
   \<and> files (mkdir d dk0) = files dk0
   \<and> dirs dk0 \<subseteq> dirs (mkdir d dk0)
   \<and> (calculate_encodings c batch_size types_file save_path random_rotation (eng, dk)
        = Inr (eng', dk') \<longrightarrow>
        (\<forall>w \<in> set (new_writes dk dk'). fst w = group_file save_path (rec_path (snd w)))
        \<and> files dk' = store_all (new_writes dk dk') (files dk)
        \<and> dirs dk' = dirs (mkdir (save_path @ [''encodings'']) dk)
        \<and> (\<forall>k \<le> Suc (length save_path). take k (save_path @ [''encodings'']) \<in> dirs dk'))"
proof -
  have "(\<forall>w \<in> set (new_writes dk dk'). fst w = group_file save_path (rec_path (snd w)))
        \<and> files dk' = store_all (new_writes dk dk') (files dk)
        \<and> dirs dk' = dirs (mkdir (save_path @ [''encodings'']) dk)
        \<and> (\<forall>k \<le> Suc (length save_path). take k (save_path @ [''encodings'']) \<in> dirs dk')"
    if run: "calculate_encodings c batch_size types_file save_path random_rotation (eng, dk)
             = Inr (eng', dk')"
  proof -
    let ?dir = "save_path @ [''encodings'']"
    from calculate_encodings_flushes_into [OF run]
    obtain ws where ws: "written dk' = written (mkdir ?dir dk) @ ws"
      "\<forall>w \<in> set ws. fst w = ?dir @ [path_stem (rec_path (snd w)) @ ''.bin'']"
      "files dk' = store_all ws (files (mkdir ?dir dk))"
      and d: "dirs dk' = dirs (mkdir ?dir dk)"
      by (auto simp: flushes_into_def)
    have nw: "new_writes dk dk' = ws" using ws(1) by (simp add: new_writes_def mkdir_def)
    have "\<forall>k \<le> Suc (length save_path). take k ?dir \<in> dirs dk'"
      unfolding d using mkdir_parents [of _ ?dir dk] by simp
    then show ?thesis
      using ws d by (simp add: nw group_file_def mkdir_def)
  qed
  then show ?thesis
    by (simp add: write_encodings_to_disk_def new_writes_def Let_def mkdir_idem mkdir_parents)
       (auto simp: mkdir_def)
qed

theorem flush_files_witness:
  "\<exists>eng' dk'.
     calculate_encodings example_collaborators 2 example_types_file [''out''] False
       example_world = Inr (eng', dk')
     \<and> (\<forall>w \<in> set (new_writes (snd example_world) dk').
          fst w = group_file [''out''] (rec_path (snd w)))
     \<and> [''out'', ''encodings''] \<in> dirs dk'
     \<and> [''out''] \<in> dirs dk'"
proof -
  have ne: "example_paths \<noteq> []" by (simp add: example_paths_def)
  have bs: "0 < (2::nat)" by simp
  have rows: "\<forall>k \<le> length example_paths div 2.
                length (batch_rows example_collaborators 2 False (provider (fst example_world)) k) = 2"
    by (simp add: example_rows)
  have w: "(fst example_world, snd example_world) = example_world" by simp
  from calculate_encodings_feed [OF example_get_paths ne bs rows,
      of "[''out'']" "snd example_world", unfolded w]
  obtain eng' dk' where run:
    "calculate_encodings example_collaborators 2 example_types_file [''out''] False
       example_world = Inr (eng', dk')"
    by blast
  have run': "calculate_encodings example_collaborators 2 example_types_file [''out''] False
       (fst example_world, snd example_world) = Inr (eng', dk')"
    using run by (simp only: w)
  note p = flush_files [where c = example_collaborators and batch_size = 2
      and types_file = example_types_file and save_path = "[''out'']"
      and random_rotation = False and eng = "fst example_world" and dk = "snd example_world"
      and eng' = eng' and dk' = dk',
      THEN conjunct2, THEN conjunct2, THEN conjunct2, THEN conjunct2, THEN conjunct2,
      THEN conjunct2, THEN mp, OF run']
  note a = p [THEN conjunct1]
  note b = p [THEN conjunct2, THEN conjunct2, THEN conjunct2]
  have "take (Suc (Suc 0)) ([''out''] @ [''encodings'']) \<in> dirs dk'"
    by (rule b [rule_format]) simp
  moreover have "take (Suc 0) ([''out''] @ [''encodings'']) \<in> dirs dk'"
    by (rule b [rule_format]) simp
  ultimately have "[''out'', ''encodings''] \<in> dirs dk'" "[''out''] \<in> dirs dk'" by simp_all
  with run a show ?thesis by blast
qed

end
